theory Spec2Isabelle
  imports Complex_Main
begin

section \<open>Data model of \<open>train_network\<close> (train.py)\<close>

text \<open>
  The training loop of \<open>train.py\<close> iterates two phases per epoch.  Tensors, the network,
  the loss function and the optimizer are external to the loop; they appear here as
  parameters.  Python floats are read as real numbers, Python ints as integers.
\<close>

datatype phase = Train | Valid

datatype error =
    NameError string      \<comment> \<open>a name bound neither locally, nor in the module, nor builtin\<close>
  | KeyError phase        \<comment> \<open>dictionary lookup of a missing phase\<close>
  | ZeroDivisionError     \<comment> \<open>true division by zero\<close>
  | RuntimeError          \<comment> \<open>\<open>view\<close> to a shape that does not fit the number of elements\<close>

text \<open>
  A batch as yielded by a data loader: \<open>data['X']\<close> is the raw input tensor, given as the
  row-major sequence of its frames (blocks of 3 x 224 x 224 numbers), \<open>data['y']\<close> the labels.
\<close>

record ('x, 'y) batch =
  X :: "'x list"
  y :: "'y"

text \<open>
  The live network: its parameters (\<open>state_dict()\<close>), the gradient buffers the optimizer
  works on, and the mode flag set by \<open>net.train(flag)\<close>.
\<close>

record ('w, 'g) net_state =
  weights :: "'w"
  grads :: "'g"
  train_mode :: bool

text \<open>What the loop prints, one event per \<open>print\<close> call (line 43, 44, 45, 91, 109, 110).\<close>

datatype event =
    Blank
  | EpochHeader int
  | Dashes
  | PhaseReport phase real real
  | Complete

text \<open>
  The arguments of a call of \<open>train_network\<close> other than the network's state, together with
  the operations of the objects passed in, and the binding of the one free name of the
  function body that is not an import: \<open>sequence_loss\<close> (line 81).  Python looks a free
  name up in the module's globals when the line runs; \<open>None\<close> is the module as written,
  which never binds it.  A data loader is iterated once per epoch and may yield different
  batches each time, so it is a function of the epoch index.  The operations passed in are
  taken to return, and the forward pass to leave the parameters as they are; \<open>loss_data0\<close>
  is \<open>loss.data[0]\<close> and \<open>count_correct\<close> is the count of line 78 applied to the predictions
  of line 77.
\<close>

record ('w, 'g, 'x, 'y, 'o, 'l) call =
  forward :: "bool \<Rightarrow> 'w \<Rightarrow> 'x list list \<Rightarrow> 'o"
  dataloaders :: "phase \<rightharpoonup> (nat \<Rightarrow> ('x, 'y) batch list)"
  dataset_sizes :: "phase \<rightharpoonup> int"
  batch_size :: int
  sequence_len :: int
  window_size :: int
  criterion :: "'o \<Rightarrow> 'y \<Rightarrow> 'l"
  loss_data0 :: "'l \<Rightarrow> real"
  count_correct :: "'o \<Rightarrow> 'y \<Rightarrow> int"
  zero_grad :: "'g \<Rightarrow> 'g"
  backward :: "'l \<Rightarrow> 'g \<Rightarrow> 'g"
  optimizer_step :: "'w \<Rightarrow> 'g \<Rightarrow> 'w"
  max_epochs :: int
  sequence_loss :: "'l option"

text \<open>The local variables of \<open>train_network\<close> that live across epochs (lines 37 to 41).\<close>

record ('w, 'g) loop_state =
  net :: "('w, 'g) net_state"
  best_model_wts :: "'w"
  best_acc :: real
  losses :: "phase \<Rightarrow> real list"
  accuracies :: "phase \<Rightarrow> real list"
  patience :: int
  stdout :: "event list"

section \<open>Reshaping a batch (lines 61 and 62)\<close>

text \<open>
  \<open>inputs.view(-1, window_size, 3, 224, 224)\<close>: row \<open>b\<close> of the view is the \<open>b\<close>-th run of
  \<open>window_size\<close> consecutive frames.  The call raises when the size is not positive or does
  not divide the number of frames.
\<close>

definition view_windows :: "int \<Rightarrow> 'x list \<Rightarrow> error + 'x list list" where
  "view_windows ws xs =
     (if ws \<le> 0 \<or> int (length xs) mod ws \<noteq> 0 then Inl RuntimeError
      else Inr (map (\<lambda>b. take (nat ws) (drop (b * nat ws) xs))
                    [0..<length xs div nat ws]))"

text \<open>\<open>inputs.transpose(0, 1)\<close> of a tensor whose dimension 1 has size \<open>n\<close>.\<close>

definition transpose01 :: "nat \<Rightarrow> 'x list list \<Rightarrow> 'x list list" where
  "transpose01 n rows = map (\<lambda>w. map (\<lambda>r. r ! w) rows) [0..<n]"

definition reshape_inputs :: "int \<Rightarrow> 'x list \<Rightarrow> error + 'x list list" where
  "reshape_inputs ws xs =
     (case view_windows ws xs of
        Inl e \<Rightarrow> Inl e
      | Inr rows \<Rightarrow> Inr (transpose01 (nat ws) rows))"

section \<open>One batch (lines 59 to 86)\<close>

text \<open>
  Lines 81 and 82: \<open>sequence_loss.backward()\<close> then \<open>optimizer.step()\<close>.  The name
  \<open>sequence_loss\<close> is resolved first; the loss of line 76 is not referred to.
\<close>

definition backprop_step ::
  "('w, 'g, 'x, 'y, 'o, 'l) call \<Rightarrow> ('w, 'g) net_state \<Rightarrow> error + ('w, 'g) net_state" where
  "backprop_step c ns =
     (case sequence_loss c of
        None \<Rightarrow> Inl (NameError ''sequence_loss'')
      | Some sl \<Rightarrow>
          (let ns' = ns\<lparr>grads := backward c sl (grads ns)\<rparr>
           in Inr (ns'\<lparr>weights := optimizer_step c (weights ns') (grads ns')\<rparr>)))"

definition process_batch ::
  "('w, 'g, 'x, 'y, 'o, 'l) call \<Rightarrow> phase \<Rightarrow> ('w, 'g) net_state \<times> real \<times> int \<Rightarrow>
   ('x, 'y) batch \<Rightarrow> error + (('w, 'g) net_state \<times> real \<times> int)" where
  "process_batch c ph acc data =
     (case acc of (ns, running_loss, running_correct) \<Rightarrow>
        (case reshape_inputs (window_size c) (X data) of
           Inl e \<Rightarrow> Inl e
         | Inr inputs \<Rightarrow>
             (let ns1 = ns\<lparr>grads := zero_grad c (grads ns)\<rparr>;
                  outputs = forward c (train_mode ns1) (weights ns1) inputs;
                  loss = criterion c outputs (y data);
                  correct = count_correct c outputs (y data)
              in (case (if ph = Train then backprop_step c ns1 else Inr ns1) of
                    Inl e \<Rightarrow> Inl e
                  | Inr ns2 \<Rightarrow>
                      Inr (ns2, running_loss + loss_data0 c loss,
                           running_correct + correct)))))"

text \<open>The \<open>for i, data in enumerate(dataloaders[phase])\<close> loop: the first raise ends it.\<close>

fun run_batches ::
  "('w, 'g, 'x, 'y, 'o, 'l) call \<Rightarrow> phase \<Rightarrow> ('w, 'g) net_state \<times> real \<times> int \<Rightarrow>
   ('x, 'y) batch list \<Rightarrow> error + (('w, 'g) net_state \<times> real \<times> int)" where
  "run_batches c ph acc [] = Inr acc"
| "run_batches c ph acc (data # rest) =
     (case process_batch c ph acc data of
        Inl e \<Rightarrow> Inl e
      | Inr acc' \<Rightarrow> run_batches c ph acc' rest)"

text \<open>
  The values \<open>loss.data[0]\<close> (lines 76 and 85) of the successive batches of a loader, each
  computed by the network as the batches before it have left it.  The list ends at a batch
  that raises.
\<close>

fun batch_losses ::
  "('w, 'g, 'x, 'y, 'o, 'l) call \<Rightarrow> phase \<Rightarrow> ('w, 'g) net_state \<Rightarrow> ('x, 'y) batch list \<Rightarrow>
   real list" where
  "batch_losses c ph ns [] = []"
| "batch_losses c ph ns (data # rest) =
     (case (reshape_inputs (window_size c) (X data), process_batch c ph (ns, 0, 0) data) of
        (Inr inputs, Inr (ns', _, _)) \<Rightarrow>
          loss_data0 c (criterion c (forward c (train_mode ns) (weights ns) inputs) (y data))
            # batch_losses c ph ns' rest
      | _ \<Rightarrow> [])"

section \<open>One phase (lines 48 to 102)\<close>

text \<open>Line 88.\<close>

definition epoch_loss_of ::
  "('w, 'g, 'x, 'y, 'o, 'l) call \<Rightarrow> phase \<Rightarrow> real \<Rightarrow> error + real" where
  "epoch_loss_of c ph running_loss =
     (case dataset_sizes c ph of
        None \<Rightarrow> Inl (KeyError ph)
      | Some n \<Rightarrow>
          if n = 0 then Inl ZeroDivisionError
          else Inr (running_loss * of_int (batch_size c) / of_int n))"

text \<open>Lines 89 and 90.\<close>

definition epoch_acc_of ::
  "('w, 'g, 'x, 'y, 'o, 'l) call \<Rightarrow> phase \<Rightarrow> int \<Rightarrow> error + real" where
  "epoch_acc_of c ph running_correct =
     (case dataset_sizes c ph of
        None \<Rightarrow> Inl (KeyError ph)
      | Some n \<Rightarrow>
          (let d = n * (sequence_len c - window_size c + 1)
           in if d = 0 then Inl ZeroDivisionError
              else Inr (of_int running_correct / of_int d)))"

text \<open>Lines 96 to 102, run when the phase is \<open>Valid\<close>.\<close>

definition observe :: "real \<Rightarrow> ('w, 'g) loop_state \<Rightarrow> ('w, 'g) loop_state" where
  "observe epoch_acc st =
     (let st1 = st\<lparr>patience := patience st + 1\<rparr>
      in if epoch_acc > best_acc st1
         then st1\<lparr>best_acc := epoch_acc,
                  best_model_wts := weights (net st1),
                  patience := 0\<rparr>
         else st1)"

definition run_phase ::
  "('w, 'g, 'x, 'y, 'o, 'l) call \<Rightarrow> nat \<Rightarrow> phase \<Rightarrow> ('w, 'g) loop_state \<Rightarrow>
   error + ('w, 'g) loop_state" where
  "run_phase c epoch ph st =
     (let ns0 = (net st)\<lparr>train_mode := (ph = Train)\<rparr>
      in case dataloaders c ph of
           None \<Rightarrow> Inl (KeyError ph)
         | Some loader \<Rightarrow>
             (case run_batches c ph (ns0, 0, 0) (loader epoch) of
                Inl e \<Rightarrow> Inl e
              | Inr (ns, running_loss, running_correct) \<Rightarrow>
                  (case epoch_loss_of c ph running_loss of
                     Inl e \<Rightarrow> Inl e
                   | Inr epoch_loss \<Rightarrow>
                       (case epoch_acc_of c ph running_correct of
                          Inl e \<Rightarrow> Inl e
                        | Inr epoch_acc \<Rightarrow>
                            (let st1 = st\<lparr>net := ns,
                                   stdout := stdout st @ [PhaseReport ph epoch_loss epoch_acc],
                                   losses := (losses st)(ph := losses st ph @ [epoch_loss]),
                                   accuracies :=
                                     (accuracies st)(ph := accuracies st ph @ [epoch_acc])\<rparr>
                             in Inr (if ph = Valid then observe epoch_acc st1 else st1))))))"

section \<open>The epoch loop (lines 42 to 105) and the whole function\<close>

text \<open>The body of the epoch loop up to line 102: the header, then Train, then Valid.\<close>

definition run_epoch ::
  "('w, 'g, 'x, 'y, 'o, 'l) call \<Rightarrow> nat \<Rightarrow> ('w, 'g) loop_state \<Rightarrow>
   error + ('w, 'g) loop_state" where
  "run_epoch c epoch st =
     (let st0 = st\<lparr>stdout := stdout st @ [Blank, EpochHeader (int epoch + 1), Dashes]\<rparr>
      in case run_phase c epoch Train st0 of
           Inl e \<Rightarrow> Inl e
         | Inr st1 \<Rightarrow> run_phase c epoch Valid st1)"

text \<open>\<open>for epoch in range(max_epochs)\<close> with the \<open>break\<close> of lines 104 and 105.\<close>

fun epoch_loop ::
  "('w, 'g, 'x, 'y, 'o, 'l) call \<Rightarrow> nat list \<Rightarrow> ('w, 'g) loop_state \<Rightarrow>
   error + ('w, 'g) loop_state" where
  "epoch_loop c [] st = Inr st"
| "epoch_loop c (epoch # rest) st =
     (case run_epoch c epoch st of
        Inl e \<Rightarrow> Inl e
      | Inr st' \<Rightarrow> if patience st' = 20 then Inr st' else epoch_loop c rest st')"

text \<open>Lines 37 to 41.\<close>

definition init_state :: "('w, 'g) net_state \<Rightarrow> ('w, 'g) loop_state" where
  "init_state net0 =
     \<lparr>net = net0, best_model_wts = weights net0, best_acc = 0,
      losses = (\<lambda>_. []), accuracies = (\<lambda>_. []), patience = 0, stdout = []\<rparr>"

text \<open>Lines 107 to 114: the closing lines of output and \<open>net.load_state_dict(best_model_wts)\<close>.\<close>

definition finish :: "('w, 'g) loop_state \<Rightarrow> ('w, 'g) loop_state" where
  "finish st =
     st\<lparr>stdout := stdout st @ [Blank, Complete],
        net := (net st)\<lparr>weights := best_model_wts st\<rparr>\<rparr>"

text \<open>
  The whole function.  The returned tuple \<open>(net, best_acc, losses, accuracies)\<close> is read off
  the final state by the fields of these names.  The argument \<open>gpu\<close> only selects whether
  the network and the tensors are moved to the GPU (lines 33, 34 and 64 to 69), which does
  not change their values: it is left out, and so is the elapsed time in the last line of
  output.
\<close>

definition train_network ::
  "('w, 'g, 'x, 'y, 'o, 'l) call \<Rightarrow> ('w, 'g) net_state \<Rightarrow> error + ('w, 'g) loop_state" where
  "train_network c net0 =
     (case epoch_loop c [0..<nat (max_epochs c)] (init_state net0) of
        Inl e \<Rightarrow> Inl e
      | Inr st \<Rightarrow> Inr (finish st))"

text \<open>
  The epochs run one after another without the \<open>break\<close>: the state at the boundary after
  each epoch of the list, used to speak about the moments of a run.
\<close>

fun run_epochs ::
  "('w, 'g, 'x, 'y, 'o, 'l) call \<Rightarrow> nat list \<Rightarrow> ('w, 'g) loop_state \<Rightarrow>
   error + ('w, 'g) loop_state" where
  "run_epochs c [] st = Inr st"
| "run_epochs c (epoch # rest) st =
     (case run_epoch c epoch st of
        Inl e \<Rightarrow> Inl e
      | Inr st' \<Rightarrow> run_epochs c rest st')"

section \<open>Reading the output\<close>

text \<open>The epochs that were started, and the figures reported for a phase, in print order.\<close>

fun epoch_headers :: "event list \<Rightarrow> int list" where
  "epoch_headers [] = []"
| "epoch_headers (EpochHeader n # out) = n # epoch_headers out"
| "epoch_headers (_ # out) = epoch_headers out"

fun reported :: "phase \<Rightarrow> event list \<Rightarrow> (real \<times> real) list" where
  "reported ph [] = []"
| "reported ph (PhaseReport ph' l a # out) =
     (if ph' = ph then (l, a) # reported ph out else reported ph out)"
| "reported ph (_ # out) = reported ph out"

section \<open>Improvement of the validation accuracy\<close>

text \<open>
  Epoch \<open>e\<close> of a list of Valid accuracies improves when its accuracy is strictly above
  the best seen before it: above 0, the best accuracy at the start, and above the accuracy
  of every earlier epoch.
\<close>

definition improves :: "real list \<Rightarrow> nat \<Rightarrow> bool" where
  "improves accs e \<longleftrightarrow> (\<forall>a \<in> set (0 # take e accs). a < accs ! e)"

section \<open>Concrete calls\<close>

text \<open>
  A small network with one integer weight, whose output is that weight: a prediction is
  correct for each label equal to it.  Videos have 6 frames and windows 5, so each video
  gives 2 predictions; each loader yields one batch of 5 frames and 2 labels per epoch.
  The name \<open>sequence_loss\<close> is bound here to a loss whose backward pass adds 1 to the
  gradient, so that every Train batch moves the weight up by 1.
\<close>

definition demo_net :: "(int, int) net_state" where
  "demo_net = \<lparr>weights = 0, grads = 0, train_mode = False\<rparr>"

definition demo_call :: "(int, int, nat, int list, int, int) call" where
  "demo_call =
     \<lparr>forward = (\<lambda>mode w inputs. w),
      dataloaders =
        [Train \<mapsto> (\<lambda>epoch. [\<lparr>X = [0, 1, 2, 3, 4], y = [0, 0]\<rparr>]),
         Valid \<mapsto> (\<lambda>epoch. [\<lparr>X = [5, 6, 7, 8, 9],
                      y = (if epoch = 0 then [1, 0] else if epoch = 1 then [2, 2] else [3, 0])\<rparr>])],
      dataset_sizes = [Train \<mapsto> 1, Valid \<mapsto> 1],
      batch_size = 1,
      sequence_len = 6,
      window_size = 5,
      criterion = (\<lambda>out labels. sum_list (map (\<lambda>l. abs (out - l)) labels)),
      loss_data0 = of_int,
      count_correct = (\<lambda>out labels. int (length (filter (\<lambda>l. l = out) labels))),
      zero_grad = (\<lambda>g. 0),
      backward = (\<lambda>l g. g + l),
      optimizer_step = (\<lambda>w g. w + g),
      max_epochs = 3,
      sequence_loss = Some 1\<rparr>"

text \<open>The same call in the module as it is written: \<open>sequence_loss\<close> is not bound.\<close>

definition module_call :: "(int, int, nat, int list, int, int) call" where
  "module_call = demo_call\<lparr>sequence_loss := None\<rparr>"

text \<open>A call whose validation labels are never predicted, with room for 25 epochs.\<close>

definition stalled_call :: "(int, int, nat, int list, int, int) call" where
  "stalled_call =
     demo_call\<lparr>dataloaders :=
                  [Train \<mapsto> (\<lambda>epoch. [\<lparr>X = [0, 1, 2, 3, 4], y = [0, 0]\<rparr>]),
                   Valid \<mapsto> (\<lambda>epoch. [\<lparr>X = [5, 6, 7, 8, 9], y = [- 1, - 1]\<rparr>])],
                max_epochs := 25\<rparr>"

text \<open>
  The figures of the normalisation example: 10 videos of 50 frames, windows of 5 frames,
  and a batch in which 230 predictions are counted as correct.
\<close>

definition norm_call :: "(int, int, nat, int list, int, int) call" where
  "norm_call =
     demo_call\<lparr>dataset_sizes := [Train \<mapsto> 10, Valid \<mapsto> 10],
               sequence_len := 50,
               count_correct := (\<lambda>out labels. 230)\<rparr>"

text \<open>
  Two calls in the module as written that do return, because their Train loader yields no
  batch: one with the validation labels of the first call, one whose validation labels are
  never predicted, with room for 25 epochs.
\<close>

definition quiet_call :: "(int, int, nat, int list, int, int) call" where
  "quiet_call =
     module_call\<lparr>dataloaders :=
                    [Train \<mapsto> (\<lambda>epoch. []),
                     Valid \<mapsto> (\<lambda>epoch. [\<lparr>X = [5, 6, 7, 8, 9],
                        y = (if epoch = 0 then [1, 0] else if epoch = 1 then [2, 2] else [3, 0])\<rparr>])]\<rparr>"

definition quiet_stalled_call :: "(int, int, nat, int list, int, int) call" where
  "quiet_stalled_call =
     module_call\<lparr>dataloaders :=
                    [Train \<mapsto> (\<lambda>epoch. []),
                     Valid \<mapsto> (\<lambda>epoch. [\<lparr>X = [5, 6, 7, 8, 9], y = [- 1, - 1]\<rparr>])],
                  max_epochs := 25\<rparr>"

text \<open>
  Two calls whose first epoch reaches the accuracy one half and whose later epochs reach 0,
  with room for 25 epochs: one with \<open>sequence_loss\<close> bound, one in the module as written.
\<close>

definition late_call :: "(int, int, nat, int list, int, int) call" where
  "late_call =
     demo_call\<lparr>dataloaders :=
                  [Train \<mapsto> (\<lambda>epoch. [\<lparr>X = [0, 1, 2, 3, 4], y = [0, 0]\<rparr>]),
                   Valid \<mapsto> (\<lambda>epoch. [\<lparr>X = [5, 6, 7, 8, 9],
                      y = (if epoch = 0 then [1, 0] else [- 1, - 1])\<rparr>])],
                max_epochs := 25\<rparr>"

definition quiet_late_call :: "(int, int, nat, int list, int, int) call" where
  "quiet_late_call =
     module_call\<lparr>dataloaders :=
                    [Train \<mapsto> (\<lambda>epoch. []),
                     Valid \<mapsto> (\<lambda>epoch. [\<lparr>X = [5, 6, 7, 8, 9],
                        y = (if epoch = 0 then [0, - 1] else [- 1, - 1])\<rparr>])],
                  max_epochs := 25\<rparr>"

text \<open>
  A call whose loaders yield several batches: two in the Train phase, three in the Valid
  phase, for 4 videos and a batch size of 2.
\<close>

definition multi_call :: "(int, int, nat, int list, int, int) call" where
  "multi_call =
     demo_call\<lparr>dataloaders :=
                  [Train \<mapsto> (\<lambda>epoch. [\<lparr>X = [0, 1, 2, 3, 4], y = [0, 0]\<rparr>,
                                        \<lparr>X = [5, 6, 7, 8, 9], y = [0, 0]\<rparr>]),
                   Valid \<mapsto> (\<lambda>epoch. [\<lparr>X = [0, 1, 2, 3, 4], y = [1, 0]\<rparr>,
                                        \<lparr>X = [5, 6, 7, 8, 9], y = [2, 2]\<rparr>,
                                        \<lparr>X = [10, 11, 12, 13, 14], y = [3, 0]\<rparr>])],
                dataset_sizes := [Train \<mapsto> 4, Valid \<mapsto> 4],
                batch_size := 2\<rparr>"

section \<open>Evaluation of the concrete calls\<close>

lemmas demo_defs = demo_call_def demo_net_def module_call_def stalled_call_def norm_call_def
  quiet_call_def quiet_stalled_call_def late_call_def quiet_late_call_def multi_call_def

lemmas run_defs = train_network_def run_epoch_def run_phase_def process_batch_def
  reshape_inputs_def view_windows_def transpose01_def backprop_step_def
  epoch_loss_of_def epoch_acc_of_def observe_def init_state_def finish_def Let_def

lemma demo_run:
  "\<exists>s. train_network demo_call demo_net = Inr s \<and>
       accuracies s Valid = [1 / 2, 1, 1 / 2] \<and> best_acc s = 1 \<and> weights (net s) = 2 \<and>
       epoch_headers (stdout s) = [1, 2, 3] \<and> length (losses s Train) = 3"
  by (simp add: demo_defs run_defs upt_conv_Cons)

lemma quiet_run:
  "\<exists>s. train_network quiet_call demo_net = Inr s \<and>
       accuracies s Valid = [1 / 2, 0, 1 / 2] \<and> best_acc s = 1 / 2 \<and> weights (net s) = 0 \<and>
       epoch_headers (stdout s) = [1, 2, 3] \<and> length (losses s Train) = 3"
  by (simp add: demo_defs run_defs upt_conv_Cons)

lemma quiet_live:
  "\<exists>s. run_epochs quiet_call [0..<3] (init_state demo_net) = Inr s \<and> weights (net s) = 0"
  by (simp add: demo_defs run_defs upt_conv_Cons)

lemma stalled_result:
  "\<exists>s. train_network stalled_call demo_net = Inr s \<and>
       (\<forall>a \<in> set (accuracies s Valid). a \<le> 0) \<and> weights (net s) = 0 \<and> best_acc s = 0"
  by (simp add: demo_defs run_defs upt_conv_Cons)

lemma quiet_stalled_result:
  "\<exists>s. train_network quiet_stalled_call demo_net = Inr s \<and>
       (\<forall>a \<in> set (accuracies s Valid). a \<le> 0) \<and> weights (net s) = 0 \<and> best_acc s = 0"
  by (simp add: demo_defs run_defs upt_conv_Cons)

lemma demo_live:
  "\<exists>s. run_epochs demo_call [0..<3] (init_state demo_net) = Inr s \<and> weights (net s) = 3"
  by (simp add: demo_defs run_defs upt_conv_Cons)

lemma stalled_run:
  "\<exists>s. run_epochs stalled_call [0..<20] (init_state demo_net) = Inr s \<and>
       (\<forall>a \<in> set (accuracies s Valid). a \<le> 0) \<and> weights (net s) = 20"
  by (simp add: demo_defs run_defs upt_conv_Cons)

lemma multi_train:
  "\<exists>s. run_phase multi_call 0 Train (init_state demo_net) = Inr s \<and> losses s Train = [1] \<and>
       weights (net s) = 2"
  by (simp add: demo_defs run_defs)

lemma multi_valid:
  "\<exists>s. run_phase multi_call 0 Valid (init_state demo_net) = Inr s \<and> losses s Valid = [4]"
  by (simp add: demo_defs run_defs)

lemma multi_train_losses:
  "batch_losses multi_call Train ((net (init_state demo_net))\<lparr>train_mode := True\<rparr>)
     [\<lparr>X = [0, 1, 2, 3, 4], y = [0, 0]\<rparr>, \<lparr>X = [5, 6, 7, 8, 9], y = [0, 0]\<rparr>] = [0, 2]"
  by (simp add: demo_defs run_defs)

lemma multi_valid_losses:
  "batch_losses multi_call Valid ((net (init_state demo_net))\<lparr>train_mode := False\<rparr>)
     [\<lparr>X = [0, 1, 2, 3, 4], y = [1, 0]\<rparr>, \<lparr>X = [5, 6, 7, 8, 9], y = [2, 2]\<rparr>,
      \<lparr>X = [10, 11, 12, 13, 14], y = [3, 0]\<rparr>] = [1, 4, 3]"
  by (simp add: demo_defs run_defs)

lemma replicate20: "replicate 20 (0::real) = [0, 0, 0, 0, 0, 0, 0, 0, 0, 0, 0, 0, 0, 0, 0, 0, 0, 0, 0, 0]"
  by code_simp

lemma late_run:
  "\<exists>s. run_epochs late_call [0..<21] (init_state demo_net) = Inr s \<and>
       accuracies s Valid = [1 / 2, 0, 0, 0, 0, 0, 0, 0, 0, 0, 0, 0, 0, 0, 0, 0, 0, 0, 0, 0, 0] \<and> weights (net s) = 21"
  by (simp add: demo_defs run_defs upt_conv_Cons)

lemma quiet_late_run:
  "\<exists>s. run_epochs quiet_late_call [0..<21] (init_state demo_net) = Inr s \<and>
       accuracies s Valid = [1 / 2, 0, 0, 0, 0, 0, 0, 0, 0, 0, 0, 0, 0, 0, 0, 0, 0, 0, 0, 0, 0] \<and> weights (net s) = 0"
  by (simp add: demo_defs run_defs upt_conv_Cons)

lemma late_stalls:
  "\<forall>e. 1 \<le> e \<and> e < 1 + 20 \<longrightarrow> \<not> improves (1 / 2 # replicate 20 0) e"
  by (auto simp: improves_def nth_Cons split: nat.splits)

lemma late_first:
  "\<forall>j < 1. \<exists>e. j \<le> e \<and> e < j + 20 \<and> improves (1 / 2 # replicate 20 0) e"
  by (auto simp: improves_def intro!: exI[of _ 0])

section \<open>The layout of the reshaped batch\<close>

lemma view_windows_nth:
  assumes "view_windows ws xs = Inr rows" "b < length xs div nat ws" "w < nat ws"
  shows "rows ! b ! w = xs ! (b * nat ws + w)"
proof -
  from assms(1) have rows:
    "rows = map (\<lambda>b. take (nat ws) (drop (b * nat ws) xs)) [0..<length xs div nat ws]"
    by (auto simp: view_windows_def split: if_splits)
  have "b * nat ws + w < (b + 1) * nat ws"
    using assms(3) by simp
  also have "\<dots> \<le> (length xs div nat ws) * nat ws"
    using assms(2) by (simp add: Suc_leI mult_le_mono1 del: mult_Suc)
  also have "\<dots> \<le> length xs"
    by simp
  finally have "b * nat ws + w < length xs" .
  then show ?thesis
    using assms(2,3) rows by (simp add: add.commute)
qed

lemma view_windows_length:
  "view_windows ws xs = Inr rows \<Longrightarrow> length rows = length xs div nat ws"
  by (auto simp: view_windows_def split: if_splits)

lemma demo_reshape:
  "reshape_inputs 5 [0, 1, 2, 3, 4, 5, 6, 7, 8, 9 :: nat]
     = Inr [[0, 5], [1, 6], [2, 7], [3, 8], [4, 9]]"
  by (simp add: reshape_inputs_def view_windows_def transpose01_def upt_conv_Cons)

text \<open>
  C2, as the code has it.  When the reshape of lines 61 and 62 succeeds on a raw tensor of
  frames \<open>xs\<close>, the result has \<open>window_size\<close> rows of \<open>length xs div window_size\<close> frames,
  entry \<open>[w, b]\<close> is the raw frame at flat index \<open>b * window_size + w\<close>, and so the raw
  frame at flat index \<open>k\<close> sits at window position \<open>k mod window_size\<close> and batch position
  \<open>k div window_size\<close>: every frame is kept, in a fixed place.
\<close>

theorem reshape_inputs_layout:
  assumes "reshape_inputs ws xs = Inr t"
  shows "length t = nat ws \<and>
         (\<forall>w < nat ws. length (t ! w) = length xs div nat ws) \<and>
         (\<forall>w < nat ws. \<forall>b < length xs div nat ws. t ! w ! b = xs ! (b * nat ws + w)) \<and>
         (\<forall>k < length xs. t ! (k mod nat ws) ! (k div nat ws) = xs ! k)"
proof -
  from assms obtain rows where v: "view_windows ws xs = Inr rows"
    and t: "t = transpose01 (nat ws) rows"
    by (auto simp: reshape_inputs_def split: sum.splits)
  from v have pos: "0 < nat ws" and dv: "nat ws dvd length xs"
    by (auto simp: view_windows_def nat_dvd_iff split: if_splits)
  have len: "length rows = length xs div nat ws"
    using v by (rule view_windows_length)
  have A: "length t = nat ws"
    by (simp add: t transpose01_def)
  have B: "\<forall>w < nat ws. length (t ! w) = length xs div nat ws"
    by (simp add: t transpose01_def len)
  have C: "\<forall>w < nat ws. \<forall>b < length xs div nat ws. t ! w ! b = xs ! (b * nat ws + w)"
    using view_windows_nth[OF v] by (simp add: t transpose01_def len)
  have D: "\<forall>k < length xs. t ! (k mod nat ws) ! (k div nat ws) = xs ! k"
  proof (intro allI impI)
    fix k assume k: "k < length xs"
    have 1: "k mod nat ws < nat ws"
      using pos by simp
    have 2: "k div nat ws < length xs div nat ws"
      using k dv pos by (metis dvd_div_mult_self less_mult_imp_div_less)
    show "t ! (k mod nat ws) ! (k div nat ws) = xs ! k"
      using C 1 2 by simp
  qed
  show ?thesis
    using A B C D by blast
qed

theorem reshape_inputs_layout_witness:
  "reshape_inputs 5 [0, 1, 2, 3, 4, 5, 6, 7, 8, 9 :: nat]
     = Inr [[0, 5], [1, 6], [2, 7], [3, 8], [4, 9]] \<and>
   [[0, 5], [1, 6], [2, 7], [3, 8], [4, 9]] ! (7 mod nat 5) ! (7 div nat 5)
     = [0, 1, 2, 3, 4, 5, 6, 7, 8, 9 :: nat] ! 7"
  using reshape_inputs_layout [OF demo_reshape] demo_reshape by simp

text \<open>
  C2 as stated fails.  With the parameters of \<open>main.py\<close> (window size 5, batch size 2) the
  raw frame at flat index 1 would have to sit at window position \<open>(1 div 2) mod 5 = 0\<close>
  and batch position \<open>1 mod 2 = 1\<close>; the frame found there is the one at flat index 5.
\<close>

theorem reshape_claimed_index_counterexample:
  "reshape_inputs 5 [0, 1, 2, 3, 4, 5, 6, 7, 8, 9 :: nat]
     = Inr [[0, 5], [1, 6], [2, 7], [3, 8], [4, 9]] \<and>
   projr (reshape_inputs 5 [0, 1, 2, 3, 4, 5, 6, 7, 8, 9 :: nat]) ! ((1 div 2) mod 5) ! (1 mod 2)
     \<noteq> [0, 1, 2, 3, 4, 5, 6, 7, 8, 9 :: nat] ! 1"
  by (simp add: reshape_inputs_def view_windows_def transpose01_def upt_conv_Cons)

section \<open>The backward pass of the Train phase\<close>

text \<open>In the module as written, a Train phase that returns has processed no batch.\<close>

lemma process_batch_module_Train:
  assumes "sequence_loss c = None"
    and "reshape_inputs (window_size c) (X data) = Inr inputs"
  shows "process_batch c Train (ns, rl, rc) data = Inl (NameError ''sequence_loss'')"
  using assms by (simp add: process_batch_def backprop_step_def)

lemma run_batches_module_Train:
  assumes "sequence_loss c = None"
    and "run_batches c Train acc bs = Inr acc'"
  shows "bs = []"
proof (cases bs)
  case Nil
  then show ?thesis .
next
  case (Cons data rest)
  obtain ns rl rc where acc: "acc = (ns, rl, rc)"
    by (cases acc)
  show ?thesis
  proof (cases "reshape_inputs (window_size c) (X data)")
    case (Inl e)
    with assms(2) Cons acc show ?thesis
      by (simp add: process_batch_def)
  next
    case (Inr inputs)
    from process_batch_module_Train[OF assms(1) Inr] assms(2) Cons acc show ?thesis
      by simp
  qed
qed

text \<open>
  C1, at a failing input.  In the module as written the name \<open>sequence_loss\<close> is not bound,
  so the first Train batch raises \<open>NameError\<close> at line 81: no gradient step is taken from the
  loss of line 76, and the call returns nothing.
\<close>

theorem train_network_module_call:
  "train_network module_call demo_net = Inl (NameError ''sequence_loss'')"
  by (simp add: demo_defs run_defs upt_conv_Cons)

section \<open>No epochs\<close>

text \<open>
  C10.  With \<open>max_epochs = 0\<close> the call returns, having run no phase (the output has
  neither an epoch header nor a phase report): the network is the initial one, the best
  accuracy is 0, and the loss and accuracy lists of both phases are empty.
\<close>

theorem train_network_no_epochs:
  "train_network (c\<lparr>max_epochs := 0\<rparr>) net0 =
     Inr \<lparr>net = net0, best_model_wts = weights net0, best_acc = 0,
          losses = (\<lambda>_. []), accuracies = (\<lambda>_. []), patience = 0,
          stdout = [Blank, Complete]\<rparr>"
  by (simp add: train_network_def init_state_def finish_def)

section \<open>What a phase and an epoch do to the state\<close>

lemma process_batch_Valid:
  assumes "process_batch c Valid (ns, rl, rc) data = Inr (ns', rl', rc')"
  shows "ns' = ns\<lparr>grads := zero_grad c (grads ns)\<rparr>"
  using assms by (auto simp: process_batch_def Let_def split: sum.splits)

lemma run_batches_Valid_weights:
  "run_batches c Valid (ns, rl, rc) bs = Inr (ns', rl', rc') \<Longrightarrow>
     weights ns' = weights ns \<and> train_mode ns' = train_mode ns"
proof (induction bs arbitrary: ns rl rc)
  case Nil
  then show ?case by simp
next
  case (Cons b bs)
  from Cons.prems obtain ns1 rl1 rc1 where
    1: "process_batch c Valid (ns, rl, rc) b = Inr (ns1, rl1, rc1)" and
    2: "run_batches c Valid (ns1, rl1, rc1) bs = Inr (ns', rl', rc')"
    by (auto split: sum.splits)
  from process_batch_Valid[OF 1] Cons.IH[OF 2] show ?case by simp
qed

lemma run_phase_Inr:
  assumes "run_phase c e ph st = Inr st'"
  obtains loader ns rl rc l a where
    "dataloaders c ph = Some loader"
    "run_batches c ph ((net st)\<lparr>train_mode := (ph = Train)\<rparr>, 0, 0) (loader e) = Inr (ns, rl, rc)"
    "epoch_loss_of c ph rl = Inr l"
    "epoch_acc_of c ph rc = Inr a"
    "st' = (if ph = Valid then observe a else id)
             (st\<lparr>net := ns,
                 stdout := stdout st @ [PhaseReport ph l a],
                 losses := (losses st)(ph := losses st ph @ [l]),
                 accuracies := (accuracies st)(ph := accuracies st ph @ [a])\<rparr>)"
  using assms
  by (auto simp: run_phase_def Let_def split: option.splits sum.splits prod.splits if_splits)

lemma run_phase_Train_effect:
  assumes "run_phase c e Train st = Inr st'"
  shows "\<exists>ns l a. st' = st\<lparr>net := ns,
            stdout := stdout st @ [PhaseReport Train l a],
            losses := (losses st)(Train := losses st Train @ [l]),
            accuracies := (accuracies st)(Train := accuracies st Train @ [a])\<rparr>"
  using assms by (elim run_phase_Inr) auto

lemma run_phase_Valid_effect:
  assumes "run_phase c e Valid st = Inr st'"
  shows "\<exists>ns l a. weights ns = weights (net st) \<and>
          st' = observe a (st\<lparr>net := ns,
            stdout := stdout st @ [PhaseReport Valid l a],
            losses := (losses st)(Valid := losses st Valid @ [l]),
            accuracies := (accuracies st)(Valid := accuracies st Valid @ [a])\<rparr>)"
proof -
  from assms obtain loader ns rl rc l a where
    rb: "run_batches c Valid ((net st)\<lparr>train_mode := (Valid = Train)\<rparr>, 0, 0) (loader e) = Inr (ns, rl, rc)"
    and st': "st' = (if Valid = Valid then observe a else id)
             (st\<lparr>net := ns,
                 stdout := stdout st @ [PhaseReport Valid l a],
                 losses := (losses st)(Valid := losses st Valid @ [l]),
                 accuracies := (accuracies st)(Valid := accuracies st Valid @ [a])\<rparr>)"
    by (elim run_phase_Inr)
  from run_batches_Valid_weights[OF rb] have "weights ns = weights (net st)" by simp
  with st' show ?thesis by auto
qed

lemma run_epoch_effect:
  assumes "run_epoch c e st = Inr st'"
  shows "\<exists>l1 a1 l2 a2.
     stdout st' = stdout st @ [Blank, EpochHeader (int e + 1), Dashes,
                               PhaseReport Train l1 a1, PhaseReport Valid l2 a2] \<and>
     losses st' Train = losses st Train @ [l1] \<and>
     losses st' Valid = losses st Valid @ [l2] \<and>
     accuracies st' Train = accuracies st Train @ [a1] \<and>
     accuracies st' Valid = accuracies st Valid @ [a2] \<and>
     patience st' = (if a2 > best_acc st then 0 else patience st + 1) \<and>
     best_acc st' = (if a2 > best_acc st then a2 else best_acc st) \<and>
     best_model_wts st' = (if a2 > best_acc st then weights (net st') else best_model_wts st)"
proof -
  from assms obtain st1 where
    1: "run_phase c e Train (st\<lparr>stdout := stdout st @ [Blank, EpochHeader (int e + 1), Dashes]\<rparr>) = Inr st1"
    and 2: "run_phase c e Valid st1 = Inr st'"
    by (auto simp: run_epoch_def Let_def split: sum.splits)
  from run_phase_Train_effect[OF 1] obtain ns1 l1 a1 where
    s1: "st1 = st\<lparr>stdout := stdout st @ [Blank, EpochHeader (int e + 1), Dashes]\<rparr>
             \<lparr>net := ns1,
              stdout := stdout (st\<lparr>stdout := stdout st @ [Blank, EpochHeader (int e + 1), Dashes]\<rparr>) @ [PhaseReport Train l1 a1],
              losses := (losses (st\<lparr>stdout := stdout st @ [Blank, EpochHeader (int e + 1), Dashes]\<rparr>))(Train := losses (st\<lparr>stdout := stdout st @ [Blank, EpochHeader (int e + 1), Dashes]\<rparr>) Train @ [l1]),
              accuracies := (accuracies (st\<lparr>stdout := stdout st @ [Blank, EpochHeader (int e + 1), Dashes]\<rparr>))(Train := accuracies (st\<lparr>stdout := stdout st @ [Blank, EpochHeader (int e + 1), Dashes]\<rparr>) Train @ [a1])\<rparr>"
    by blast
  from run_phase_Valid_effect[OF 2] obtain ns2 l2 a2 where
    s2: "st' = observe a2 (st1\<lparr>net := ns2,
            stdout := stdout st1 @ [PhaseReport Valid l2 a2],
            losses := (losses st1)(Valid := losses st1 Valid @ [l2]),
            accuracies := (accuracies st1)(Valid := accuracies st1 Valid @ [a2])\<rparr>)"
    by blast
  show ?thesis
    apply (rule exI[of _ l1], rule exI[of _ a1], rule exI[of _ l2], rule exI[of _ a2])
    apply (simp add: s2 s1 observe_def Let_def)
    done
qed

lemma epoch_loss_of_Inr:
  "epoch_loss_of c ph rl = Inr l \<Longrightarrow>
     \<exists>n. dataset_sizes c ph = Some n \<and> n \<noteq> 0 \<and> l = rl * of_int (batch_size c) / of_int n"
  by (auto simp: epoch_loss_of_def split: option.splits if_splits)

lemma epoch_acc_of_Inr:
  "epoch_acc_of c ph rc = Inr a \<Longrightarrow>
     \<exists>n. dataset_sizes c ph = Some n \<and> n * (sequence_len c - window_size c + 1) \<noteq> 0 \<and>
         a = of_int rc / of_int (n * (sequence_len c - window_size c + 1))"
  by (auto simp: epoch_acc_of_def Let_def split: option.splits if_splits)

lemma run_phase_lists:
  assumes "run_phase c e ph st = Inr st'"
  obtains loader ns rl rc l a where
    "dataloaders c ph = Some loader"
    "run_batches c ph ((net st)\<lparr>train_mode := (ph = Train)\<rparr>, 0, 0) (loader e) = Inr (ns, rl, rc)"
    "epoch_loss_of c ph rl = Inr l"
    "epoch_acc_of c ph rc = Inr a"
    "losses st' ph = losses st ph @ [l]"
    "accuracies st' ph = accuracies st ph @ [a]"
proof -
  from assms obtain loader ns rl rc l a where
    1: "dataloaders c ph = Some loader"
    "run_batches c ph ((net st)\<lparr>train_mode := (ph = Train)\<rparr>, 0, 0) (loader e) = Inr (ns, rl, rc)"
    "epoch_loss_of c ph rl = Inr l"
    "epoch_acc_of c ph rc = Inr a"
    and st': "st' = (if ph = Valid then observe a else id)
             (st\<lparr>net := ns,
                 stdout := stdout st @ [PhaseReport ph l a],
                 losses := (losses st)(ph := losses st ph @ [l]),
                 accuracies := (accuracies st)(ph := accuracies st ph @ [a])\<rparr>)"
    by (elim run_phase_Inr)
  have "losses st' ph = losses st ph @ [l]" "accuracies st' ph = accuracies st ph @ [a]"
    by (simp_all add: st' observe_def Let_def)
  with 1 show ?thesis using that by blast
qed

section \<open>Epoch statistics\<close>

text \<open>
  C3.  Whenever a phase of an epoch completes, the accuracy it appends for that phase is
  \<open>running_correct / (dataset_sizes[phase] * (sequence_len - window_size + 1))\<close>, where
  \<open>running_correct\<close> is the count accumulated over the batches of the phase; and with 10
  videos, sequences of 50, windows of 5 and a count of 230 the accuracy is one half.
\<close>

theorem epoch_acc_formula:
  "(run_phase c e ph st = Inr st' \<longrightarrow>
      (\<exists>loader ns rl rc n.
          dataloaders c ph = Some loader \<and>
          run_batches c ph ((net st)\<lparr>train_mode := (ph = Train)\<rparr>, 0, 0) (loader e)
            = Inr (ns, rl, rc) \<and>
          dataset_sizes c ph = Some n \<and>
          accuracies st' ph = accuracies st ph @
            [of_int rc / of_int (n * (sequence_len c - window_size c + 1))])) \<and>
   (dataset_sizes c ph = Some 10 \<and> sequence_len c = 50 \<and> window_size c = 5 \<longrightarrow>
      epoch_acc_of c ph 230 = Inr (1 / 2))"
proof (intro conjI impI)
  assume "run_phase c e ph st = Inr st'"
  then obtain loader ns rl rc l a where
    1: "dataloaders c ph = Some loader"
    "run_batches c ph ((net st)\<lparr>train_mode := (ph = Train)\<rparr>, 0, 0) (loader e) = Inr (ns, rl, rc)"
    and a: "epoch_acc_of c ph rc = Inr a"
    and acc: "accuracies st' ph = accuracies st ph @ [a]"
    by (elim run_phase_lists)
  from epoch_acc_of_Inr[OF a] obtain n where
    "dataset_sizes c ph = Some n" "a = of_int rc / of_int (n * (sequence_len c - window_size c + 1))"
    by blast
  with 1 acc show "\<exists>loader ns rl rc n.
          dataloaders c ph = Some loader \<and>
          run_batches c ph ((net st)\<lparr>train_mode := (ph = Train)\<rparr>, 0, 0) (loader e)
            = Inr (ns, rl, rc) \<and>
          dataset_sizes c ph = Some n \<and>
          accuracies st' ph = accuracies st ph @
            [of_int rc / of_int (n * (sequence_len c - window_size c + 1))]"
    by blast
next
  assume "dataset_sizes c ph = Some 10 \<and> sequence_len c = 50 \<and> window_size c = 5"
  then show "epoch_acc_of c ph 230 = Inr (1 / 2)"
    by (simp add: epoch_acc_of_def)
qed

theorem epoch_acc_formula_witness:
  "\<not> isl (run_phase norm_call 0 Valid (init_state demo_net)) \<and>
   accuracies (projr (run_phase norm_call 0 Valid (init_state demo_net))) Valid = [1 / 2] \<and>
   epoch_acc_of norm_call Valid 230 = Inr (1 / 2)"
  using epoch_acc_formula [of norm_call 0 Valid "init_state demo_net"
      "projr (run_phase norm_call 0 Valid (init_state demo_net))"]
  by (simp add: demo_defs run_defs)

lemma process_batch_shift:
  assumes "process_batch c ph (ns, rl, rc) data = Inr (ns', rl', rc')"
  shows "\<exists>inputs l k. reshape_inputs (window_size c) (X data) = Inr inputs \<and>
           process_batch c ph (ns, 0, 0) data = Inr (ns', l, k) \<and>
           l = loss_data0 c (criterion c (forward c (train_mode ns) (weights ns) inputs) (y data)) \<and>
           rl' = rl + l"
  using assms by (auto simp: process_batch_def Let_def split: sum.splits)

lemma run_batches_sum:
  "run_batches c ph (ns, rl, rc) bs = Inr (ns', rl', rc') \<Longrightarrow>
     rl' = rl + sum_list (batch_losses c ph ns bs) \<and>
     length (batch_losses c ph ns bs) = length bs"
proof (induction bs arbitrary: ns rl rc)
  case Nil
  then show ?case by simp
next
  case (Cons data bs)
  from Cons.prems obtain ns1 rl1 rc1 where
    1: "process_batch c ph (ns, rl, rc) data = Inr (ns1, rl1, rc1)" and
    2: "run_batches c ph (ns1, rl1, rc1) bs = Inr (ns', rl', rc')"
    by (auto split: sum.splits)
  from process_batch_shift[OF 1] obtain inputs l k where
    r: "reshape_inputs (window_size c) (X data) = Inr inputs" and
    z: "process_batch c ph (ns, 0, 0) data = Inr (ns1, l, k)" and
    l: "l = loss_data0 c (criterion c (forward c (train_mode ns) (weights ns) inputs) (y data))" and
    s: "rl1 = rl + l"
    by blast
  have "batch_losses c ph ns (data # bs) = l # batch_losses c ph ns1 bs"
    by (simp add: r z l)
  with Cons.IH[OF 2] s show ?case by simp
qed

lemma batch_losses_Valid:
  "run_batches c Valid (ns, rl, rc) bs = Inr (ns', rl', rc') \<Longrightarrow>
     batch_losses c Valid ns bs =
       map (\<lambda>data. loss_data0 c (criterion c
              (forward c (train_mode ns) (weights ns)
                 (projr (reshape_inputs (window_size c) (X data)))) (y data))) bs"
proof (induction bs arbitrary: ns rl rc)
  case Nil
  then show ?case by simp
next
  case (Cons data bs)
  from Cons.prems obtain ns1 rl1 rc1 where
    1: "process_batch c Valid (ns, rl, rc) data = Inr (ns1, rl1, rc1)" and
    2: "run_batches c Valid (ns1, rl1, rc1) bs = Inr (ns', rl', rc')"
    by (auto split: sum.splits)
  from process_batch_shift[OF 1] obtain inputs l k where
    r: "reshape_inputs (window_size c) (X data) = Inr inputs" and
    z: "process_batch c Valid (ns, 0, 0) data = Inr (ns1, l, k)" and
    l: "l = loss_data0 c (criterion c (forward c (train_mode ns) (weights ns) inputs) (y data))"
    by blast
  from process_batch_Valid[OF 1] have same: "train_mode ns1 = train_mode ns" "weights ns1 = weights ns"
    by simp_all
  have "batch_losses c Valid ns (data # bs) = l # batch_losses c Valid ns1 bs"
    by (simp add: r z l)
  with Cons.IH[OF 2] same r l show ?case by simp
qed

text \<open>
  C6.  Whenever a phase of an epoch completes, every batch of its loader has contributed
  one loss value, and the loss appended for the phase is the sum of these values over all
  the batches, multiplied by \<open>batch_size\<close> and divided by \<open>dataset_sizes[phase]\<close>.  In the
  Valid phase, where the weights stay as they are, each of these values is the loss of the
  batch at the weights the phase started with.
\<close>

theorem epoch_loss_formula:
  "(run_phase c e ph st = Inr st' \<longrightarrow>
      (\<exists>loader n.
          dataloaders c ph = Some loader \<and> dataset_sizes c ph = Some n \<and> n \<noteq> 0 \<and>
          length (batch_losses c ph ((net st)\<lparr>train_mode := (ph = Train)\<rparr>) (loader e))
            = length (loader e) \<and>
          losses st' ph = losses st ph @
            [sum_list (batch_losses c ph ((net st)\<lparr>train_mode := (ph = Train)\<rparr>) (loader e))
               * of_int (batch_size c) / of_int n])) \<and>
   (run_phase c e Valid st = Inr st' \<longrightarrow>
      (\<exists>loader n.
          dataloaders c Valid = Some loader \<and> dataset_sizes c Valid = Some n \<and> n \<noteq> 0 \<and>
          losses st' Valid = losses st Valid @
            [sum_list (map (\<lambda>data. loss_data0 c (criterion c
                  (forward c False (weights (net st))
                     (projr (reshape_inputs (window_size c) (X data)))) (y data))) (loader e))
               * of_int (batch_size c) / of_int n]))"
proof -
  have A: "\<exists>loader n.
          dataloaders c ph = Some loader \<and> dataset_sizes c ph = Some n \<and> n \<noteq> 0 \<and>
          length (batch_losses c ph ((net st)\<lparr>train_mode := (ph = Train)\<rparr>) (loader e))
            = length (loader e) \<and>
          (ph = Valid \<longrightarrow> batch_losses c ph ((net st)\<lparr>train_mode := (ph = Train)\<rparr>) (loader e) =
             map (\<lambda>data. loss_data0 c (criterion c
                  (forward c False (weights (net st))
                     (projr (reshape_inputs (window_size c) (X data)))) (y data))) (loader e)) \<and>
          losses st' ph = losses st ph @
            [sum_list (batch_losses c ph ((net st)\<lparr>train_mode := (ph = Train)\<rparr>) (loader e))
               * of_int (batch_size c) / of_int n]"
    if run: "run_phase c e ph st = Inr st'" for ph st'
  proof -
    from run obtain loader ns rl rc l a where
      ld: "dataloaders c ph = Some loader" and
      rb: "run_batches c ph ((net st)\<lparr>train_mode := (ph = Train)\<rparr>, 0, 0) (loader e) = Inr (ns, rl, rc)" and
      l: "epoch_loss_of c ph rl = Inr l" and
      ls: "losses st' ph = losses st ph @ [l]"
      by (elim run_phase_lists)
    from epoch_loss_of_Inr[OF l] obtain n where
      n: "dataset_sizes c ph = Some n" "n \<noteq> 0" "l = rl * of_int (batch_size c) / of_int n"
      by blast
    from run_batches_sum[OF rb] have
      sum: "rl = sum_list (batch_losses c ph ((net st)\<lparr>train_mode := (ph = Train)\<rparr>) (loader e))" and
      len: "length (batch_losses c ph ((net st)\<lparr>train_mode := (ph = Train)\<rparr>) (loader e)) = length (loader e)"
      by simp_all
    have v: "ph = Valid \<longrightarrow> batch_losses c ph ((net st)\<lparr>train_mode := (ph = Train)\<rparr>) (loader e) =
             map (\<lambda>data. loss_data0 c (criterion c
                  (forward c False (weights (net st))
                     (projr (reshape_inputs (window_size c) (X data)))) (y data))) (loader e)"
    proof
      assume "ph = Valid"
      with rb batch_losses_Valid[of c "(net st)\<lparr>train_mode := (Valid = Train)\<rparr>" 0 0 "loader e" ns rl rc]
      show "batch_losses c ph ((net st)\<lparr>train_mode := (ph = Train)\<rparr>) (loader e) =
             map (\<lambda>data. loss_data0 c (criterion c
                  (forward c False (weights (net st))
                     (projr (reshape_inputs (window_size c) (X data)))) (y data))) (loader e)"
        by simp
    qed
    from ld n sum len v ls show ?thesis
      by auto
  qed
  show ?thesis
  proof (intro conjI impI)
    assume "run_phase c e ph st = Inr st'"
    from A[OF this] show "\<exists>loader n.
          dataloaders c ph = Some loader \<and> dataset_sizes c ph = Some n \<and> n \<noteq> 0 \<and>
          length (batch_losses c ph ((net st)\<lparr>train_mode := (ph = Train)\<rparr>) (loader e))
            = length (loader e) \<and>
          losses st' ph = losses st ph @
            [sum_list (batch_losses c ph ((net st)\<lparr>train_mode := (ph = Train)\<rparr>) (loader e))
               * of_int (batch_size c) / of_int n]"
      by blast
  next
    assume "run_phase c e Valid st = Inr st'"
    from A[OF this] show "\<exists>loader n.
          dataloaders c Valid = Some loader \<and> dataset_sizes c Valid = Some n \<and> n \<noteq> 0 \<and>
          losses st' Valid = losses st Valid @
            [sum_list (map (\<lambda>data. loss_data0 c (criterion c
                  (forward c False (weights (net st))
                     (projr (reshape_inputs (window_size c) (X data)))) (y data))) (loader e))
               * of_int (batch_size c) / of_int n]"
      by auto
  qed
qed

theorem epoch_loss_formula_witness:
  "\<not> isl (run_phase multi_call 0 Train (init_state demo_net)) \<and>
   losses (projr (run_phase multi_call 0 Train (init_state demo_net))) Train
     = [sum_list [0, 2] * 2 / 4] \<and>
   \<not> isl (run_phase multi_call 0 Valid (init_state demo_net)) \<and>
   losses (projr (run_phase multi_call 0 Valid (init_state demo_net))) Valid
     = [sum_list [1, 4, 3] * 2 / 4]"
proof -
  from multi_train obtain t where t: "run_phase multi_call 0 Train (init_state demo_net) = Inr t"
    by blast
  from multi_valid obtain v where v: "run_phase multi_call 0 Valid (init_state demo_net) = Inr v"
    by blast
  have ld: "dataloaders multi_call Train = Some (\<lambda>epoch. [\<lparr>X = [0, 1, 2, 3, 4], y = [0, 0]\<rparr>,
                                        \<lparr>X = [5, 6, 7, 8, 9], y = [0, 0]\<rparr>])"
    "dataloaders multi_call Valid = Some (\<lambda>epoch. [\<lparr>X = [0, 1, 2, 3, 4], y = [1, 0]\<rparr>,
                                        \<lparr>X = [5, 6, 7, 8, 9], y = [2, 2]\<rparr>,
                                        \<lparr>X = [10, 11, 12, 13, 14], y = [3, 0]\<rparr>])"
    "dataset_sizes multi_call Train = Some 4" "dataset_sizes multi_call Valid = Some 4"
    "batch_size multi_call = 2"
    by (simp_all add: demo_defs)
  from epoch_loss_formula [of multi_call 0 Train "init_state demo_net" t] t ld multi_train_losses
  have T: "losses t Train = [sum_list [0, 2] * 2 / 4]"
    by (auto simp: init_state_def)
  from epoch_loss_formula [of multi_call 0 Valid "init_state demo_net" v] v ld multi_valid_losses
  have V: "losses v Valid = [sum_list [1, 4, 3] * 2 / 4]"
    by (auto simp: init_state_def)
  from T V t v show ?thesis
    by simp
qed

section \<open>The Valid phase leaves the parameters alone\<close>

text \<open>
  C8.  A batch processed in the Valid phase changes the network only by clearing the
  gradients (line 72): neither the backward pass nor the optimizer step runs, and the
  parameters after the batch are those before it.  Hence a whole Valid phase ends with the
  parameters it started with.
\<close>

theorem valid_phase_keeps_weights:
  "(process_batch c Valid (ns, rl, rc) data = Inr (ns', rl', rc') \<longrightarrow>
      ns' = ns\<lparr>grads := zero_grad c (grads ns)\<rparr> \<and> weights ns' = weights ns) \<and>
   (run_phase c e Valid st = Inr st' \<longrightarrow> weights (net st') = weights (net st))"
proof (intro conjI impI)
  assume h: "process_batch c Valid (ns, rl, rc) data = Inr (ns', rl', rc')"
  from process_batch_Valid[OF h] show "ns' = ns\<lparr>grads := zero_grad c (grads ns)\<rparr>" .
  then show "weights ns' = weights ns" by simp
next
  assume "run_phase c e Valid st = Inr st'"
  from run_phase_Valid_effect[OF this] show "weights (net st') = weights (net st)"
    by (auto simp: observe_def Let_def)
qed

theorem valid_phase_keeps_weights_witness:
  "process_batch demo_call Valid (\<lparr>weights = 1, grads = 7, train_mode = False\<rparr>, 0, 0)
       \<lparr>X = [5, 6, 7, 8, 9], y = [1, 0]\<rparr>
     = Inr (\<lparr>weights = 1, grads = 0, train_mode = False\<rparr>, 1, 1) \<and>
   \<not> isl (run_phase demo_call 0 Valid (init_state demo_net)) \<and>
   weights (net (projr (run_phase demo_call 0 Valid (init_state demo_net)))) = 0"
  using valid_phase_keeps_weights [of demo_call "\<lparr>weights = 1, grads = 7, train_mode = False\<rparr>"
      0 0 "\<lparr>X = [5, 6, 7, 8, 9], y = [1, 0]\<rparr>"
      "\<lparr>weights = 1, grads = 0, train_mode = False\<rparr>" 1 1 0 "init_state demo_net"
      "projr (run_phase demo_call 0 Valid (init_state demo_net))"]
  by (simp add: demo_defs run_defs)

section \<open>The epoch loop as a sequence of epochs\<close>

lemma run_epochs_append:
  "run_epochs c (xs @ ys) st =
     (case run_epochs c xs st of Inl e \<Rightarrow> Inl e | Inr s \<Rightarrow> run_epochs c ys s)"
  by (induction xs arbitrary: st) (auto split: sum.splits)

lemma run_epochs_snoc:
  "run_epochs c (es @ [e]) st = Inr st' \<longleftrightarrow>
     (\<exists>s. run_epochs c es st = Inr s \<and> run_epoch c e s = Inr st')"
  by (auto simp: run_epochs_append split: sum.splits)

lemma run_epochs_prefix:
  assumes "run_epochs c [0..<n] st = Inr st'" "m \<le> n"
  shows "\<exists>s. run_epochs c [0..<m] st = Inr s \<and> run_epochs c [m..<n] s = Inr st'"
proof -
  have "[0..<n] = [0..<m] @ [m..<n]"
    using assms(2) by (metis le0 upt_add_eq_append le_add_diff_inverse)
  with assms(1) show ?thesis
    by (auto simp: run_epochs_append split: sum.splits)
qed

lemma epoch_loop_run_epochs:
  "epoch_loop c es st = Inr st' \<Longrightarrow>
     \<exists>j \<le> length es. run_epochs c (take j es) st = Inr st'"
proof (induction es arbitrary: st)
  case Nil
  then show ?case by simp
next
  case (Cons e es)
  from Cons.prems obtain s where s: "run_epoch c e st = Inr s"
    and rest: "(if patience s = 20 then Inr s else epoch_loop c es s) = Inr st'"
    by (auto split: sum.splits)
  show ?case
  proof (cases "patience s = 20")
    case True
    with rest have "st' = s" by simp
    with s have "run_epochs c (take 1 (e # es)) st = Inr st'" by simp
    then show ?thesis by (intro exI[of _ 1]) simp
  next
    case False
    with rest have "epoch_loop c es s = Inr st'" by simp
    from Cons.IH[OF this] obtain j where "j \<le> length es" "run_epochs c (take j es) s = Inr st'"
      by blast
    with s have "Suc j \<le> length (e # es)" "run_epochs c (take (Suc j) (e # es)) st = Inr st'"
      by simp_all
    then show ?thesis by blast
  qed
qed

lemma train_network_Inr:
  assumes "train_network c net0 = Inr res"
  shows "\<exists>n st. n \<le> nat (max_epochs c) \<and>
           run_epochs c [0..<n] (init_state net0) = Inr st \<and> res = finish st"
proof -
  from assms obtain st where l: "epoch_loop c [0..<nat (max_epochs c)] (init_state net0) = Inr st"
    and r: "res = finish st"
    by (auto simp: train_network_def split: sum.splits)
  from epoch_loop_run_epochs[OF l] obtain j where
    j: "j \<le> nat (max_epochs c)" "run_epochs c (take j [0..<nat (max_epochs c)]) (init_state net0) = Inr st"
    by auto
  from j(1) have "take j [0..<nat (max_epochs c)] = [0..<j]"
    by (simp add: take_upt)
  with j r show ?thesis by auto
qed

lemma epoch_headers_append:
  "epoch_headers (xs @ ys) = epoch_headers xs @ epoch_headers ys"
  by (induction xs rule: epoch_headers.induct) simp_all

lemma reported_append:
  "reported ph (xs @ ys) = reported ph xs @ reported ph ys"
  by (induction ph xs rule: reported.induct) simp_all

lemma run_epoch_lengths:
  assumes "run_epoch c e st = Inr st'"
  shows "length (losses st' ph) = Suc (length (losses st ph)) \<and>
         length (accuracies st' ph) = Suc (length (accuracies st ph))"
  using run_epoch_effect[OF assms] by (cases ph) auto

lemma run_epochs_lengths:
  "run_epochs c es st = Inr st' \<Longrightarrow>
     length (losses st' ph) = length (losses st ph) + length es \<and>
     length (accuracies st' ph) = length (accuracies st ph) + length es"
proof (induction es arbitrary: st)
  case Nil
  then show ?case by simp
next
  case (Cons e es)
  from Cons.prems obtain s where s: "run_epoch c e st = Inr s" and r: "run_epochs c es s = Inr st'"
    by (auto split: sum.splits)
  from run_epoch_lengths[OF s, of ph] Cons.IH[OF r] show ?case by simp
qed

lemma run_epoch_log:
  assumes "run_epoch c e st = Inr st'"
    and "reported ph (stdout st) = zip (losses st ph) (accuracies st ph)"
    and "length (losses st ph) = length (accuracies st ph)"
  shows "reported ph (stdout st') = zip (losses st' ph) (accuracies st' ph)"
  using run_epoch_effect[OF assms(1)] assms(2,3)
  by (cases ph) (auto simp: reported_append)

lemma run_epochs_init_log:
  "run_epochs c [0..<j] (init_state net0) = Inr st \<Longrightarrow>
     epoch_headers (stdout st) = map (\<lambda>e. int e + 1) [0..<j] \<and>
     (\<forall>ph. length (losses st ph) = j \<and> length (accuracies st ph) = j \<and>
           reported ph (stdout st) = zip (losses st ph) (accuracies st ph))"
proof (induction j arbitrary: st)
  case 0
  then show ?case by (auto simp: init_state_def)
next
  case (Suc j)
  from Suc.prems obtain s where s: "run_epochs c [0..<j] (init_state net0) = Inr s"
    and e: "run_epoch c j s = Inr st"
    by (auto simp: run_epochs_snoc)
  note IH = Suc.IH[OF s]
  have hd: "epoch_headers (stdout st) = map (\<lambda>e. int e + 1) [0..<Suc j]"
    using run_epoch_effect[OF e] IH by (auto simp: epoch_headers_append)
  have "\<And>ph. length (losses st ph) = Suc j \<and> length (accuracies st ph) = Suc j \<and>
           reported ph (stdout st) = zip (losses st ph) (accuracies st ph)"
    using run_epoch_lengths[OF e] run_epoch_log[OF e] IH by simp
  with hd show ?case by blast
qed

section \<open>The recorded history\<close>

text \<open>
  C7.  When \<open>train_network\<close> returns, some number \<open>n\<close> of epochs, at most \<open>max_epochs\<close>, has
  been executed (their headers \<open>Epoch 1\<close> to \<open>Epoch n\<close> are the ones printed, in this order),
  each of the four lists has exactly \<open>n\<close> entries, and the entries of each list are the
  figures reported for its phase, in the order in which the epochs reported them.
\<close>

theorem history_lengths:
  assumes "train_network c net0 = Inr res"
  shows "\<exists>n \<le> nat (max_epochs c).
           epoch_headers (stdout res) = map (\<lambda>e. int e + 1) [0..<n] \<and>
           (\<forall>ph. length (losses res ph) = n \<and> length (accuracies res ph) = n \<and>
                 losses res ph = map fst (reported ph (stdout res)) \<and>
                 accuracies res ph = map snd (reported ph (stdout res)))"
proof -
  from train_network_Inr[OF assms] obtain n st where n: "n \<le> nat (max_epochs c)"
    and st: "run_epochs c [0..<n] (init_state net0) = Inr st" and res: "res = finish st"
    by blast
  note L = run_epochs_init_log[OF st]
  have 1: "epoch_headers (stdout res) = map (\<lambda>e. int e + 1) [0..<n]"
    using L by (simp add: res finish_def epoch_headers_append)
  have 2: "\<And>ph. length (losses res ph) = n \<and> length (accuracies res ph) = n \<and>
                 losses res ph = map fst (reported ph (stdout res)) \<and>
                 accuracies res ph = map snd (reported ph (stdout res))"
    using L by (simp add: res finish_def reported_append)
  from n 1 2 show ?thesis by blast
qed

theorem history_lengths_witness:
  "\<not> isl (train_network quiet_call demo_net) \<and>
   epoch_headers (stdout (projr (train_network quiet_call demo_net))) = [1, 2, 3] \<and>
   length (accuracies (projr (train_network quiet_call demo_net)) Valid) = 3 \<and>
   \<not> isl (train_network demo_call demo_net) \<and>
   epoch_headers (stdout (projr (train_network demo_call demo_net))) = [1, 2, 3] \<and>
   length (accuracies (projr (train_network demo_call demo_net)) Valid) = 3"
proof -
  from quiet_run obtain q where q: "train_network quiet_call demo_net = Inr q"
    "epoch_headers (stdout q) = [1, 2, 3]"
    by blast
  from demo_run obtain d where d: "train_network demo_call demo_net = Inr d"
    "epoch_headers (stdout d) = [1, 2, 3]"
    by blast
  from history_lengths [OF q(1)] obtain n where
    n: "epoch_headers (stdout q) = map (\<lambda>e. int e + 1) [0..<n]" "length (accuracies q Valid) = n"
    by blast
  from n(1) q(2) have "length (map (\<lambda>e. int e + 1) [0..<n]) = length [1, 2, 3 :: int]"
    by simp
  with n(2) have A: "length (accuracies q Valid) = 3"
    by simp
  from history_lengths [OF d(1)] obtain m where
    m: "epoch_headers (stdout d) = map (\<lambda>e. int e + 1) [0..<m]" "length (accuracies d Valid) = m"
    by blast
  from m(1) d(2) have "length (map (\<lambda>e. int e + 1) [0..<m]) = length [1, 2, 3 :: int]"
    by simp
  with m(2) have B: "length (accuracies d Valid) = 3"
    by simp
  from A B q d show ?thesis
    by simp
qed

section \<open>Epochs without improvement\<close>

lemma run_epochs_accs:
  "run_epochs c es st = Inr st' \<Longrightarrow>
     \<exists>zs. accuracies st' Valid = accuracies st Valid @ zs \<and> length zs = length es"
proof (induction es arbitrary: st)
  case Nil
  then show ?case by simp
next
  case (Cons e es)
  from Cons.prems obtain s where s: "run_epoch c e st = Inr s" and r: "run_epochs c es s = Inr st'"
    by (auto split: sum.splits)
  from run_epoch_effect[OF s] obtain a where a: "accuracies s Valid = accuracies st Valid @ [a]"
    by blast
  from Cons.IH[OF r] obtain zs where "accuracies st' Valid = accuracies s Valid @ zs" "length zs = length es"
    by blast
  with a have "accuracies st' Valid = accuracies st Valid @ (a # zs)" "length (a # zs) = length (e # es)"
    by simp_all
  then show ?case by blast
qed

lemma run_epoch_stalled:
  assumes "run_epoch c e st = Inr s"
    and "\<forall>a \<in> set (drop (length (accuracies st Valid)) (accuracies s Valid)). a \<le> best_acc st"
  shows "patience s = patience st + 1 \<and> best_acc s = best_acc st \<and>
         best_model_wts s = best_model_wts st"
  using run_epoch_effect[OF assms(1)] assms(2) by auto

lemma run_epochs_stalled_split:
  assumes s: "run_epoch c e st = Inr s" and r: "run_epochs c es s = Inr st'"
    and stall: "\<forall>a \<in> set (drop (length (accuracies st Valid)) (accuracies st' Valid)). a \<le> best_acc st"
  shows "(\<forall>a \<in> set (drop (length (accuracies st Valid)) (accuracies s Valid)). a \<le> best_acc st) \<and>
         (\<forall>a \<in> set (drop (length (accuracies s Valid)) (accuracies st' Valid)). a \<le> best_acc st)"
proof -
  from run_epoch_effect[OF s] obtain a where a: "accuracies s Valid = accuracies st Valid @ [a]"
    by blast
  from run_epochs_accs[OF r] obtain zs where zs: "accuracies st' Valid = accuracies s Valid @ zs"
    by blast
  from stall show ?thesis by (simp add: a zs)
qed

lemma run_epochs_stalled:
  "run_epochs c es st = Inr st' \<Longrightarrow>
   \<forall>a \<in> set (drop (length (accuracies st Valid)) (accuracies st' Valid)). a \<le> best_acc st \<Longrightarrow>
     patience st' = patience st + int (length es) \<and> best_acc st' = best_acc st \<and>
     best_model_wts st' = best_model_wts st"
proof (induction es arbitrary: st)
  case Nil
  then show ?case by simp
next
  case (Cons e es)
  from Cons.prems(1) obtain s where s: "run_epoch c e st = Inr s" and r: "run_epochs c es s = Inr st'"
    by (auto split: sum.splits)
  from run_epochs_stalled_split[OF s r Cons.prems(2)] have
    1: "\<forall>a \<in> set (drop (length (accuracies st Valid)) (accuracies s Valid)). a \<le> best_acc st" and
    2: "\<forall>a \<in> set (drop (length (accuracies s Valid)) (accuracies st' Valid)). a \<le> best_acc st"
    by blast+
  from run_epoch_stalled[OF s 1] have
    3: "patience s = patience st + 1" "best_acc s = best_acc st" "best_model_wts s = best_model_wts st"
    by blast+
  from Cons.IH[OF r] 2 3 show ?case by simp
qed

section \<open>The initial best record\<close>

text \<open>
  C9.  Before the first epoch the best accuracy is 0, \<open>patience\<close> is 0 and the snapshot
  holds the initial weights.  When \<open>train_network\<close> returns from a run in which no Valid
  accuracy was above 0, the returned network has the initial weights and the best accuracy
  is 0.
\<close>

theorem initial_best_record:
  "best_acc (init_state net0) = 0 \<and> patience (init_state net0) = 0 \<and>
   best_model_wts (init_state net0) = weights net0 \<and>
   (train_network c net0 = Inr res \<longrightarrow> (\<forall>a \<in> set (accuracies res Valid). a \<le> 0) \<longrightarrow>
      weights (net res) = weights net0 \<and> best_acc res = 0)"
proof (intro conjI impI)
  assume t: "train_network c net0 = Inr res" and le: "\<forall>a \<in> set (accuracies res Valid). a \<le> 0"
  from train_network_Inr[OF t] obtain n st where
    st: "run_epochs c [0..<n] (init_state net0) = Inr st" and res: "res = finish st"
    by blast
  from le have "\<forall>a \<in> set (drop (length (accuracies (init_state net0) Valid)) (accuracies st Valid)).
                  a \<le> best_acc (init_state net0)"
    by (simp add: res finish_def init_state_def)
  from run_epochs_stalled[OF st this] have
    "best_acc st = 0" "best_model_wts st = weights net0"
    by (simp_all add: init_state_def)
  then show "weights (net res) = weights net0" "best_acc res = 0"
    by (simp_all add: res finish_def)
qed (simp_all add: init_state_def)

theorem initial_best_record_witness:
  "\<not> isl (train_network quiet_stalled_call demo_net) \<and>
   weights (net (projr (train_network quiet_stalled_call demo_net))) = weights demo_net \<and>
   best_acc (projr (train_network quiet_stalled_call demo_net)) = 0 \<and>
   \<not> isl (train_network stalled_call demo_net) \<and>
   weights (net (projr (run_epochs stalled_call [0..<20] (init_state demo_net)))) = 20 \<and>
   weights (net (projr (train_network stalled_call demo_net))) = weights demo_net \<and>
   best_acc (projr (train_network stalled_call demo_net)) = 0"
proof -
  from quiet_stalled_result obtain q where q: "train_network quiet_stalled_call demo_net = Inr q"
    "\<forall>a \<in> set (accuracies q Valid). a \<le> 0"
    by blast
  from stalled_result obtain s where s: "train_network stalled_call demo_net = Inr s"
    "\<forall>a \<in> set (accuracies s Valid). a \<le> 0"
    by blast
  from stalled_run obtain l where l: "run_epochs stalled_call [0..<20] (init_state demo_net) = Inr l"
    "weights (net l) = 20"
    by blast
  from initial_best_record [of demo_net quiet_stalled_call q] q
  have "weights (net q) = weights demo_net \<and> best_acc q = 0"
    by blast
  moreover from initial_best_record [of demo_net stalled_call s] s
  have "weights (net s) = weights demo_net \<and> best_acc s = 0"
    by blast
  ultimately show ?thesis
    using q(1) s(1) l by simp
qed

section \<open>The best-model record\<close>

lemma Max_insert0_snoc:
  "Max (insert (0::real) (set (xs @ [a]))) = max a (Max (insert 0 (set xs)))"
proof -
  have "insert (0::real) (set (xs @ [a])) = insert a (insert 0 (set xs))"
    by auto
  then show ?thesis
    by simp
qed

lemma run_epochs_init_best:
  "run_epochs c [0..<m] (init_state net0) = Inr sm \<Longrightarrow>
     length (accuracies sm Valid) = m \<and>
     best_acc sm = Max (insert 0 (set (accuracies sm Valid))) \<and>
     (best_acc sm = 0 \<longrightarrow> best_model_wts sm = weights net0) \<and>
     (best_acc sm \<noteq> 0 \<longrightarrow>
        (\<exists>e < m. accuracies sm Valid ! e = best_acc sm \<and>
                 (\<forall>j < e. accuracies sm Valid ! j < best_acc sm) \<and>
                 (\<exists>se. run_epochs c [0..<Suc e] (init_state net0) = Inr se \<and>
                       best_model_wts sm = weights (net se))))"
proof (induction m arbitrary: sm)
  case 0
  then show ?case by (auto simp: init_state_def)
next
  case (Suc m)
  from Suc.prems obtain s where s: "run_epochs c [0..<m] (init_state net0) = Inr s"
    and e: "run_epoch c m s = Inr sm"
    by (auto simp: run_epochs_snoc)
  from Suc.IH[OF s] have
    len: "length (accuracies s Valid) = m" and
    mx: "best_acc s = Max (insert 0 (set (accuracies s Valid)))" and
    zero: "best_acc s = 0 \<longrightarrow> best_model_wts s = weights net0" and
    pos: "best_acc s \<noteq> 0 \<longrightarrow>
        (\<exists>e < m. accuracies s Valid ! e = best_acc s \<and>
                 (\<forall>j < e. accuracies s Valid ! j < best_acc s) \<and>
                 (\<exists>se. run_epochs c [0..<Suc e] (init_state net0) = Inr se \<and>
                       best_model_wts s = weights (net se)))"
    by blast+
  from run_epoch_effect[OF e] obtain a where
    accs: "accuracies sm Valid = accuracies s Valid @ [a]" and
    best: "best_acc sm = (if a > best_acc s then a else best_acc s)" and
    wts: "best_model_wts sm = (if a > best_acc s then weights (net sm) else best_model_wts s)"
    by blast
  have ge0: "0 \<le> best_acc s"
    using mx by simp
  have bound: "\<And>j. j < m \<Longrightarrow> accuracies s Valid ! j \<le> best_acc s"
    using mx len by simp
  have L: "length (accuracies sm Valid) = Suc m"
    using accs len by simp
  have "Max (insert 0 (set (accuracies sm Valid))) = max a (best_acc s)"
    by (simp only: accs Max_insert0_snoc mx)
  moreover have "best_acc sm = max a (best_acc s)"
    by (simp add: best max_def)
  ultimately have M: "best_acc sm = Max (insert 0 (set (accuracies sm Valid)))"
    by simp
  show ?case
  proof (cases "a > best_acc s")
    case True
    with best wts have b: "best_acc sm = a" and w: "best_model_wts sm = weights (net sm)"
      by simp_all
    from True ge0 b have nz: "best_acc sm \<noteq> 0"
      by simp
    have 1: "accuracies sm Valid ! m = best_acc sm"
      using nth_append_length[of "accuracies s Valid" a "[]"] by (simp add: accs len b)
    have 2: "\<forall>j < m. accuracies sm Valid ! j < best_acc sm"
      using bound True b accs len by (auto simp: nth_append intro: le_less_trans)
    have 3: "\<exists>se. run_epochs c [0..<Suc m] (init_state net0) = Inr se \<and>
                  best_model_wts sm = weights (net se)"
      using Suc.prems w by blast
    from 1 2 3 have "\<exists>e < Suc m. accuracies sm Valid ! e = best_acc sm \<and>
                 (\<forall>j < e. accuracies sm Valid ! j < best_acc sm) \<and>
                 (\<exists>se. run_epochs c [0..<Suc e] (init_state net0) = Inr se \<and>
                       best_model_wts sm = weights (net se))"
      by blast
    with L M nz show ?thesis by blast
  next
    case False
    with best wts have b: "best_acc sm = best_acc s" and w: "best_model_wts sm = best_model_wts s"
      by simp_all
    have Z: "best_acc sm = 0 \<longrightarrow> best_model_wts sm = weights net0"
      using zero b w by simp
    have P: "best_acc sm \<noteq> 0 \<longrightarrow>
        (\<exists>e < Suc m. accuracies sm Valid ! e = best_acc sm \<and>
                 (\<forall>j < e. accuracies sm Valid ! j < best_acc sm) \<and>
                 (\<exists>se. run_epochs c [0..<Suc e] (init_state net0) = Inr se \<and>
                       best_model_wts sm = weights (net se)))"
    proof
      assume "best_acc sm \<noteq> 0"
      with pos b obtain e se where e: "e < m" "accuracies s Valid ! e = best_acc s"
        "\<forall>j < e. accuracies s Valid ! j < best_acc s"
        "run_epochs c [0..<Suc e] (init_state net0) = Inr se" "best_model_wts s = weights (net se)"
        by auto
      have "e < Suc m" using e(1) by simp
      moreover have "accuracies sm Valid ! e = best_acc sm"
        using e(1,2) len b by (simp add: accs nth_append)
      moreover have "\<forall>j < e. accuracies sm Valid ! j < best_acc sm"
        using e(1,3) len b by (simp add: accs nth_append)
      moreover have "\<exists>se. run_epochs c [0..<Suc e] (init_state net0) = Inr se \<and>
                       best_model_wts sm = weights (net se)"
        using e(4,5) w by auto
      ultimately show "\<exists>e < Suc m. accuracies sm Valid ! e = best_acc sm \<and>
                 (\<forall>j < e. accuracies sm Valid ! j < best_acc sm) \<and>
                 (\<exists>se. run_epochs c [0..<Suc e] (init_state net0) = Inr se \<and>
                       best_model_wts sm = weights (net se))"
        by blast
    qed
    from L M Z P show ?thesis by blast
  qed
qed

text \<open>
  C5.  When \<open>train_network\<close> returns, it has run some \<open>n\<close> epochs and returns the state
  reached after them with the snapshot loaded into the network, whatever the live weights
  then are.  At the boundary after each of the first \<open>m \<le> n\<close> epochs, the best accuracy
  is the largest of 0 and the Valid accuracies recorded so far.  If it is 0 (no accuracy
  exceeded 0), the snapshot is the copy of the initial weights; otherwise the snapshot is
  the network's weights at the end of the first epoch whose Valid accuracy equals the best
  accuracy, all earlier ones being strictly smaller, so that a later tie has not replaced
  it.
\<close>

theorem best_model_record:
  assumes "train_network c net0 = Inr res"
  shows "\<exists>n st. n \<le> nat (max_epochs c) \<and>
           run_epochs c [0..<n] (init_state net0) = Inr st \<and> res = finish st \<and>
           weights (net res) = best_model_wts st \<and> best_acc res = best_acc st \<and>
           (\<forall>m \<le> n. \<exists>sm. run_epochs c [0..<m] (init_state net0) = Inr sm \<and>
               accuracies sm Valid = take m (accuracies res Valid) \<and>
               best_acc sm = Max (insert 0 (set (accuracies sm Valid))) \<and>
               (best_acc sm = 0 \<longrightarrow> best_model_wts sm = weights net0) \<and>
               (best_acc sm \<noteq> 0 \<longrightarrow>
                  (\<exists>e < m. accuracies sm Valid ! e = best_acc sm \<and>
                           (\<forall>j < e. accuracies sm Valid ! j < best_acc sm) \<and>
                           (\<exists>se. run_epochs c [0..<Suc e] (init_state net0) = Inr se \<and>
                                 best_model_wts sm = weights (net se)))))"
proof -
  from train_network_Inr[OF assms] obtain n st where n: "n \<le> nat (max_epochs c)"
    and st: "run_epochs c [0..<n] (init_state net0) = Inr st" and res: "res = finish st"
    by blast
  have fin: "weights (net res) = best_model_wts st" "best_acc res = best_acc st"
    by (simp_all add: res finish_def)
  have mid: "\<forall>m \<le> n. \<exists>sm. run_epochs c [0..<m] (init_state net0) = Inr sm \<and>
               accuracies sm Valid = take m (accuracies res Valid) \<and>
               best_acc sm = Max (insert 0 (set (accuracies sm Valid))) \<and>
               (best_acc sm = 0 \<longrightarrow> best_model_wts sm = weights net0) \<and>
               (best_acc sm \<noteq> 0 \<longrightarrow>
                  (\<exists>e < m. accuracies sm Valid ! e = best_acc sm \<and>
                           (\<forall>j < e. accuracies sm Valid ! j < best_acc sm) \<and>
                           (\<exists>se. run_epochs c [0..<Suc e] (init_state net0) = Inr se \<and>
                                 best_model_wts sm = weights (net se))))"
  proof (intro allI impI)
    fix m assume "m \<le> n"
    from run_epochs_prefix[OF st this] obtain sm where
      sm: "run_epochs c [0..<m] (init_state net0) = Inr sm" and
      rest: "run_epochs c [m..<n] sm = Inr st"
      by blast
    note I = run_epochs_init_best[OF sm]
    from run_epochs_accs[OF rest] obtain zs where "accuracies st Valid = accuracies sm Valid @ zs"
      by blast
    with I have "accuracies sm Valid = take m (accuracies res Valid)"
      by (simp add: res finish_def)
    with sm I show "\<exists>sm. run_epochs c [0..<m] (init_state net0) = Inr sm \<and>
               accuracies sm Valid = take m (accuracies res Valid) \<and>
               best_acc sm = Max (insert 0 (set (accuracies sm Valid))) \<and>
               (best_acc sm = 0 \<longrightarrow> best_model_wts sm = weights net0) \<and>
               (best_acc sm \<noteq> 0 \<longrightarrow>
                  (\<exists>e < m. accuracies sm Valid ! e = best_acc sm \<and>
                           (\<forall>j < e. accuracies sm Valid ! j < best_acc sm) \<and>
                           (\<exists>se. run_epochs c [0..<Suc e] (init_state net0) = Inr se \<and>
                                 best_model_wts sm = weights (net se))))"
      by blast
  qed
  from n st res fin mid show ?thesis by blast
qed

theorem best_model_record_witness:
  "\<not> isl (train_network quiet_call demo_net) \<and>
   accuracies (projr (train_network quiet_call demo_net)) Valid = [1 / 2, 0, 1 / 2] \<and>
   best_acc (projr (train_network quiet_call demo_net)) = 1 / 2 \<and>
   weights (net (projr (train_network quiet_call demo_net)))
     = best_model_wts (projr (run_epochs quiet_call [0..<3] (init_state demo_net))) \<and>
   \<not> isl (train_network demo_call demo_net) \<and>
   accuracies (projr (train_network demo_call demo_net)) Valid = [1 / 2, 1, 1 / 2] \<and>
   best_acc (projr (train_network demo_call demo_net)) = 1 \<and>
   weights (net (projr (train_network demo_call demo_net))) = 2 \<and>
   weights (net (projr (run_epochs demo_call [0..<3] (init_state demo_net)))) = 3 \<and>
   weights (net (projr (train_network demo_call demo_net)))
     = best_model_wts (projr (run_epochs demo_call [0..<3] (init_state demo_net)))"
proof -
  from quiet_run obtain q where q: "train_network quiet_call demo_net = Inr q"
    "accuracies q Valid = [1 / 2, 0, 1 / 2]" "best_acc q = 1 / 2"
    by blast
  from quiet_live obtain ql where ql: "run_epochs quiet_call [0..<3] (init_state demo_net) = Inr ql"
    by blast
  from demo_run obtain s where s: "train_network demo_call demo_net = Inr s"
    "accuracies s Valid = [1 / 2, 1, 1 / 2]" "best_acc s = 1" "weights (net s) = 2"
    by blast
  from demo_live obtain l where l: "run_epochs demo_call [0..<3] (init_state demo_net) = Inr l"
    "weights (net l) = 3"
    by blast
  from best_model_record [OF q(1)] obtain k qt where
    k: "run_epochs quiet_call [0..<k] (init_state demo_net) = Inr qt" "q = finish qt"
    "weights (net q) = best_model_wts qt"
    by blast
  from run_epochs_init_best[OF k(1)] q(2) k(2) have "k = 3"
    by (auto simp: finish_def)
  with k ql have Q: "weights (net q) = best_model_wts ql"
    by simp
  from best_model_record [OF s(1)] obtain n st where
    n: "run_epochs demo_call [0..<n] (init_state demo_net) = Inr st" "s = finish st"
    "weights (net s) = best_model_wts st"
    by blast
  from run_epochs_init_best[OF n(1)] s(2) n(2) have "n = 3"
    by (auto simp: finish_def)
  with n l have S: "weights (net s) = best_model_wts l"
    by simp
  from Q S q ql s l show ?thesis
    by simp
qed

section \<open>Early stopping\<close>

lemma improves_Max:
  "improves accs e \<longleftrightarrow> Max (insert 0 (set (take e accs))) < accs ! e"
  by (simp add: improves_def)

lemma improves_take:
  "e < m \<Longrightarrow> improves (take m accs) e = improves accs e"
  by (simp add: improves_def min_def)

lemma improves_snoc_old:
  "e < length accs \<Longrightarrow> improves (accs @ [a]) e = improves accs e"
  by (simp add: improves_def nth_append)

lemma improves_snoc_new:
  "improves (accs @ [a]) (length accs) \<longleftrightarrow> Max (insert 0 (set accs)) < a"
  by (simp add: improves_Max)

lemma run_epochs_init_patience:
  "run_epochs c [0..<m] (init_state net0) = Inr sm \<Longrightarrow>
     \<exists>p \<le> m. patience sm = int p \<and>
        (\<forall>e. m - p \<le> e \<and> e < m \<longrightarrow> \<not> improves (accuracies sm Valid) e) \<and>
        (p < m \<longrightarrow> improves (accuracies sm Valid) (m - p - 1))"
proof (induction m arbitrary: sm)
  case 0
  then show ?case by (auto simp: init_state_def)
next
  case (Suc m)
  from Suc.prems obtain s where s: "run_epochs c [0..<m] (init_state net0) = Inr s"
    and e: "run_epoch c m s = Inr sm"
    by (auto simp: run_epochs_snoc)
  from Suc.IH[OF s] obtain p where p: "p \<le> m" "patience s = int p"
    "\<forall>e. m - p \<le> e \<and> e < m \<longrightarrow> \<not> improves (accuracies s Valid) e"
    "p < m \<longrightarrow> improves (accuracies s Valid) (m - p - 1)"
    by blast
  from run_epochs_init_best[OF s] have len: "length (accuracies s Valid) = m"
    and mx: "best_acc s = Max (insert 0 (set (accuracies s Valid)))"
    by blast+
  from run_epoch_effect[OF e] obtain a where
    accs: "accuracies sm Valid = accuracies s Valid @ [a]" and
    pat: "patience sm = (if a > best_acc s then 0 else patience s + 1)"
    by blast
  have new: "improves (accuracies sm Valid) m \<longleftrightarrow> best_acc s < a"
    using improves_snoc_new[of "accuracies s Valid" a] by (simp add: accs len mx)
  have old: "\<And>e. e < m \<Longrightarrow> improves (accuracies sm Valid) e = improves (accuracies s Valid) e"
    using improves_snoc_old[of _ "accuracies s Valid" a] by (simp add: accs len)
  show ?case
  proof (cases "best_acc s < a")
    case True
    with pat new have "patience sm = int 0" "improves (accuracies sm Valid) (Suc m - 0 - 1)"
      by simp_all
    then show ?thesis
      by (intro exI[of _ 0]) auto
  next
    case False
    with pat p(2) have 1: "patience sm = int (Suc p)"
      by simp
    have 2: "\<forall>e. Suc m - Suc p \<le> e \<and> e < Suc m \<longrightarrow> \<not> improves (accuracies sm Valid) e"
    proof (intro allI impI)
      fix e assume e: "Suc m - Suc p \<le> e \<and> e < Suc m"
      show "\<not> improves (accuracies sm Valid) e"
      proof (cases "e = m")
        case True
        with new False show ?thesis by simp
      next
        case False
        with e have "e < m" "m - p \<le> e" by simp_all
        with p(3) old show ?thesis by simp
      qed
    qed
    have 3: "Suc p < Suc m \<longrightarrow> improves (accuracies sm Valid) (Suc m - Suc p - 1)"
      using p(4) old[of "m - p - 1"] by auto
    from p(1) 1 2 3 show ?thesis
      by (intro exI[of _ "Suc p"]) auto
  qed
qed

lemma epoch_loop_first_stop:
  "run_epochs c es st0 = Inr st \<Longrightarrow>
   \<forall>j sj. 0 < j \<and> j < length es \<and> run_epochs c (take j es) st0 = Inr sj \<longrightarrow> patience sj \<noteq> 20 \<Longrightarrow>
   es \<noteq> [] \<Longrightarrow> patience st = 20 \<Longrightarrow>
     epoch_loop c (es @ later) st0 = Inr st"
proof (induction es arbitrary: st0)
  case Nil
  then show ?case by simp
next
  case (Cons e es)
  from Cons.prems(1) obtain s where s: "run_epoch c e st0 = Inr s" and r: "run_epochs c es s = Inr st"
    by (auto split: sum.splits)
  show ?case
  proof (cases "es = []")
    case True
    with r Cons.prems(4) s show ?thesis by simp
  next
    case False
    have "run_epochs c (take 1 (e # es)) st0 = Inr s"
      using s by simp
    with Cons.prems(2) False have ne: "patience s \<noteq> 20"
      by (metis One_nat_def length_Cons length_greater_0_conv less_Suc_eq_0_disj less_numeral_extra(1) not_less_eq)
    have "\<forall>j sj. 0 < j \<and> j < length es \<and> run_epochs c (take j es) s = Inr sj \<longrightarrow> patience sj \<noteq> 20"
    proof (intro allI impI)
      fix j sj assume j: "0 < j \<and> j < length es \<and> run_epochs c (take j es) s = Inr sj"
      then have "0 < Suc j \<and> Suc j < length (e # es) \<and> run_epochs c (take (Suc j) (e # es)) st0 = Inr sj"
        using s by simp
      with Cons.prems(2) show "patience sj \<noteq> 20" by blast
    qed
    from Cons.IH[OF r this False Cons.prems(4)] have "epoch_loop c (es @ later) s = Inr st" .
    with s ne show ?thesis by simp
  qed
qed

lemma run_epochs_init_prefix:
  assumes "run_epochs c [0..<n] (init_state net0) = Inr st" "m \<le> n"
  shows "\<exists>sm. run_epochs c [0..<m] (init_state net0) = Inr sm \<and>
              accuracies sm Valid = take m (accuracies st Valid)"
proof -
  from run_epochs_prefix[OF assms] obtain sm where
    sm: "run_epochs c [0..<m] (init_state net0) = Inr sm" and
    rest: "run_epochs c [m..<n] sm = Inr st"
    by blast
  from run_epochs_init_best[OF sm] have "length (accuracies sm Valid) = m"
    by blast
  moreover from run_epochs_accs[OF rest] obtain zs where "accuracies st Valid = accuracies sm Valid @ zs"
    by blast
  ultimately have "accuracies sm Valid = take m (accuracies st Valid)"
    by simp
  with sm show ?thesis by blast
qed

text \<open>
  C4.  Let the first \<open>k + 20\<close> epochs of a call run to their end \<open>st\<close>, let none of the
  epochs \<open>k\<close> to \<open>k + 19\<close> improve on the best Valid accuracy seen before it, and let this
  be the first such run of 20 epochs: every 20 consecutive epochs that start before epoch
  \<open>k\<close> contain one that improves.  Then the epoch loop, with room for \<open>N \<ge> k + 20\<close>
  epochs, ends in exactly \<open>st\<close>: it has run all of these epochs with both their phases,
  it stops after the 20th epoch without improvement with \<open>patience\<close> at 20 and runs none
  of the epochs after it, and \<open>train_network\<close> returns at that point.
\<close>

theorem early_stop:
  assumes run: "run_epochs c [0..<k + 20] (init_state net0) = Inr st"
    and stall: "\<forall>e. k \<le> e \<and> e < k + 20 \<longrightarrow> \<not> improves (accuracies st Valid) e"
    and first: "\<forall>j < k. \<exists>e. j \<le> e \<and> e < j + 20 \<and> improves (accuracies st Valid) e"
    and N: "k + 20 \<le> N"
  shows "epoch_loop c [0..<N] (init_state net0) = Inr st \<and> patience st = 20 \<and>
         (\<forall>ph. length (losses st ph) = k + 20 \<and> length (accuracies st ph) = k + 20) \<and>
         (N = nat (max_epochs c) \<longrightarrow> train_network c net0 = Inr (finish st))"
proof -
  let ?accs = "accuracies st Valid"
  have streak: "patience sj = 20 \<Longrightarrow> j = k + 20"
    if sj: "run_epochs c [0..<j] (init_state net0) = Inr sj" and j: "j \<le> k + 20" for j sj
  proof -
    assume p20: "patience sj = 20"
    from run_epochs_init_prefix[OF run j] sj have accs: "accuracies sj Valid = take j ?accs"
      by simp
    from run_epochs_init_patience[OF sj] p20 have j20: "20 \<le> j" and
      w: "\<forall>e. j - 20 \<le> e \<and> e < j \<longrightarrow> \<not> improves (accuracies sj Valid) e"
      by auto
    have w': "\<forall>e. j - 20 \<le> e \<and> e < j \<longrightarrow> \<not> improves ?accs e"
      using w by (simp add: accs improves_take)
    show "j = k + 20"
    proof (rule ccontr)
      assume "j \<noteq> k + 20"
      with j j20 have "j - 20 < k" by simp
      with first obtain e where "j - 20 \<le> e" "e < j - 20 + 20" "improves ?accs e"
        by blast
      with w' j20 show False by simp
    qed
  qed
  have p: "patience st = 20"
  proof -
    from run_epochs_init_patience[OF run] obtain p where p: "p \<le> k + 20" "patience st = int p"
      "\<forall>e. k + 20 - p \<le> e \<and> e < k + 20 \<longrightarrow> \<not> improves ?accs e"
      "p < k + 20 \<longrightarrow> improves ?accs (k + 20 - p - 1)"
      by blast
    have "\<not> p < 20"
    proof
      assume "p < 20"
      with p(4) have "improves ?accs (k + 20 - p - 1)" "k \<le> k + 20 - p - 1" "k + 20 - p - 1 < k + 20"
        by simp_all
      with stall show False by blast
    qed
    moreover have "\<not> 20 < p"
    proof
      assume "20 < p"
      with p(1) have "k + 20 - p < k" by simp
      with first obtain e where "k + 20 - p \<le> e" "e < k + 20 - p + 20" "improves ?accs e"
        by blast
      with p(3) \<open>20 < p\<close> p(1) show False by simp
    qed
    ultimately have "p = 20" by simp
    with p(2) show ?thesis by simp
  qed
  have split: "[0..<N] = [0..<k + 20] @ [k + 20..<N]"
    using N by (metis le0 upt_add_eq_append le_add_diff_inverse)
  have before: "\<forall>j sj. 0 < j \<and> j < length [0..<k + 20] \<and>
      run_epochs c (take j [0..<k + 20]) (init_state net0) = Inr sj \<longrightarrow> patience sj \<noteq> 20"
  proof (intro allI impI)
    fix j sj
    assume a: "0 < j \<and> j < length [0..<k + 20] \<and>
      run_epochs c (take j [0..<k + 20]) (init_state net0) = Inr sj"
    then have j: "j < k + 20" and "take j [0..<k + 20] = [0..<j]"
      by (simp_all add: take_upt)
    with a have sj: "run_epochs c [0..<j] (init_state net0) = Inr sj"
      by simp
    from streak[OF sj] j show "patience sj \<noteq> 20"
      by auto
  qed
  have ne: "[0..<k + 20] \<noteq> []"
    by simp
  have 1: "epoch_loop c [0..<N] (init_state net0) = Inr st"
    using epoch_loop_first_stop[OF run before ne p, of "[k + 20..<N]"] split by simp
  have 3: "\<And>ph. length (losses st ph) = k + 20 \<and> length (accuracies st ph) = k + 20"
    using run_epochs_init_log[OF run] by simp
  have 4: "N = nat (max_epochs c) \<longrightarrow> train_network c net0 = Inr (finish st)"
    using 1 by (auto simp: train_network_def)
  from 1 p 3 4 show ?thesis by blast
qed

theorem early_stop_witness:
  "\<not> isl (run_epochs quiet_late_call [0..<21] (init_state demo_net)) \<and>
   epoch_loop quiet_late_call [0..<25] (init_state demo_net)
     = run_epochs quiet_late_call [0..<21] (init_state demo_net) \<and>
   train_network quiet_late_call demo_net
     = Inr (finish (projr (run_epochs quiet_late_call [0..<21] (init_state demo_net)))) \<and>
   \<not> isl (run_epochs late_call [0..<21] (init_state demo_net)) \<and>
   epoch_loop late_call [0..<25] (init_state demo_net)
     = run_epochs late_call [0..<21] (init_state demo_net) \<and>
   patience (projr (run_epochs late_call [0..<21] (init_state demo_net))) = 20 \<and>
   length (accuracies (projr (run_epochs late_call [0..<21] (init_state demo_net))) Valid) = 21 \<and>
   train_network late_call demo_net
     = Inr (finish (projr (run_epochs late_call [0..<21] (init_state demo_net))))"
proof -
  from quiet_late_run obtain q where
    q: "run_epochs quiet_late_call [0..<21] (init_state demo_net) = Inr q" and
    qa: "accuracies q Valid = [1 / 2, 0, 0, 0, 0, 0, 0, 0, 0, 0, 0, 0, 0, 0, 0, 0, 0, 0, 0, 0, 0]"
    by blast
  from late_run obtain s where
    s: "run_epochs late_call [0..<21] (init_state demo_net) = Inr s" and
    sa: "accuracies s Valid = [1 / 2, 0, 0, 0, 0, 0, 0, 0, 0, 0, 0, 0, 0, 0, 0, 0, 0, 0, 0, 0, 0]"
    by blast
  have q': "run_epochs quiet_late_call [0..<1 + 20] (init_state demo_net) = Inr q"
    using q by simp
  have s': "run_epochs late_call [0..<1 + 20] (init_state demo_net) = Inr s"
    using s by simp
  have qr: "accuracies q Valid = 1 / 2 # replicate 20 0"
    by (simp only: qa replicate20)
  have sr: "accuracies s Valid = 1 / 2 # replicate 20 0"
    by (simp only: sa replicate20)
  have qstall: "\<forall>e. 1 \<le> e \<and> e < 1 + 20 \<longrightarrow> \<not> improves (accuracies q Valid) e"
    and qfirst: "\<forall>j < 1. \<exists>e. j \<le> e \<and> e < j + 20 \<and> improves (accuracies q Valid) e"
    using late_stalls late_first by (simp_all only: qr)
  have sstall: "\<forall>e. 1 \<le> e \<and> e < 1 + 20 \<longrightarrow> \<not> improves (accuracies s Valid) e"
    and sfirst: "\<forall>j < 1. \<exists>e. j \<le> e \<and> e < j + 20 \<and> improves (accuracies s Valid) e"
    using late_stalls late_first by (simp_all only: sr)
  have N: "1 + 20 \<le> (25::nat)"
    by simp
  have m: "25 = nat (max_epochs quiet_late_call)" "25 = nat (max_epochs late_call)"
    by (simp_all add: demo_defs)
  from early_stop [OF q' qstall qfirst N] m(1)
  have Q: "epoch_loop quiet_late_call [0..<25] (init_state demo_net) = Inr q \<and>
           train_network quiet_late_call demo_net = Inr (finish q)"
    by blast
  from early_stop [OF s' sstall sfirst N] m(2)
  have S: "epoch_loop late_call [0..<25] (init_state demo_net) = Inr s \<and> patience s = 20 \<and>
           length (accuracies s Valid) = 21 \<and>
           train_network late_call demo_net = Inr (finish s)"
    by auto
  from Q S q s show ?thesis
    by simp
qed

end
